theory Spec2Isabelle
  imports Main "HOL-Library.Signed_Division"
begin

unbundle bit_operations_syntax

section \<open>Foreign field arithmetic gadgets (src/lib/fetch.ts, second document)\<close>

text \<open>
  The gadgets work on JavaScript bigints and on native field elements. A bigint is an
  \<^typ>\<open>int\<close>: \<open>x << n\<close> is \<^term>\<open>push_bit n x\<close>, \<open>x >> n\<close> is
  \<^term>\<open>drop_bit n x\<close> (both floor, as on bigints), \<open>x & m\<close> is \<^term>\<open>x AND m\<close>
  (two's complement on negative numbers, as on bigints) and \<open>x / y\<close> is the truncating
  \<^term>\<open>x sdiv y\<close>, which throws a RangeError when \<open>y\<close> is zero.
\<close>

subsection \<open>Errors\<close>

datatype error =
    AssertionError string  \<comment> \<open>\<open>assert(cond, message)\<close> of common.js failed\<close>
  | RangeError             \<comment> \<open>bigint division by zero\<close>
  | TypeError              \<comment> \<open>reading the limbs of \<open>undefined\<close> (an index past the end of an array)\<close>

subsection \<open>Limb constants (imported from range-check.js)\<close>

text \<open>
  Modelled from the spec: the limb width \<open>l\<close> of range-check.js is not under src/; it is
  a parameter of every definition. The derived widths are \<open>l2 = 2l\<close> and \<open>l3 = 3l\<close>,
  and the masks are derived from \<open>l\<close>.
\<close>

definition l2 :: "nat \<Rightarrow> nat" where
  "l2 l = 2 * l"

definition l3 :: "nat \<Rightarrow> nat" where
  "l3 l = 3 * l"

definition lMask :: "nat \<Rightarrow> int" where
  "lMask l = push_bit l 1 - 1"

definition l2Mask :: "nat \<Rightarrow> int" where
  "l2Mask l = push_bit (l2 l) 1 - 1"

subsection \<open>Limb codec\<close>

type_synonym bigint3 = "int \<times> int \<times> int"

datatype Sign = Minus | Plus  \<comment> \<open>\<open>type Sign = -1n | 1n\<close>\<close>

fun sign_val :: "Sign \<Rightarrow> int" where
  "sign_val Minus = - 1"
| "sign_val Plus = 1"

fun combine :: "nat \<Rightarrow> bigint3 \<Rightarrow> int" where
  "combine l (x0, x1, x2) = x0 + push_bit l x1 + push_bit (l2 l) x2"

definition split :: "nat \<Rightarrow> int \<Rightarrow> bigint3" where
  "split l x = (x AND lMask l, drop_bit l x AND lMask l, drop_bit (l2 l) x AND lMask l)"

fun combine2 :: "nat \<Rightarrow> int \<times> int \<Rightarrow> int" where
  "combine2 l (x0, x1) = x0 + push_bit l x1"

text \<open>\<open>combine2\<close> also takes a \<open>bigint3\<close> and reads its first two limbs.\<close>

fun combine2_3 :: "nat \<Rightarrow> bigint3 \<Rightarrow> int" where
  "combine2_3 l (x0, x1, x2) = combine2 l (x0, x1)"

definition split2 :: "nat \<Rightarrow> int \<Rightarrow> int \<times> int" where
  "split2 l x = (x AND lMask l, drop_bit l x AND lMask l)"

subsection \<open>Native field elements (field.js, bool.js)\<close>

text \<open>
  Modelled from the spec: \<open>Field\<close> and \<open>Bool\<close> are not under src/. Every operand is
  either constant (a concretely known integer) or symbolic (a circuit variable). A variable
  carries the value that its witness computation gives it at proving time (\<open>exists(n, compute)\<close>
  runs \<open>compute\<close> and makes each of its \<open>n\<close> values a variable), and an operation folds
  constants (emitting no constraint) exactly when all its operands are constant.

  A native field element is a residue modulo the native modulus \<open>p\<close>. The modulus is not
  under src/; it is a parameter of every definition that touches a field element. A
  \<open>Field\<close> holds an integer that stands for its residue: everything that makes a field
  element (\<open>Field.from\<close>, \<open>exists\<close>, the field operations) stores the residue in
  \<open>[0, p)\<close>, so a witness of \<open>-1\<close> is stored as \<open>p - 1\<close>, and \<open>toBigInt\<close> reads the
  residue.
\<close>

datatype Field = Constant int | Variable int

fun toBigInt :: "nat \<Rightarrow> Field \<Rightarrow> int" where
  "toBigInt p (Constant v) = v mod int p"
| "toBigInt p (Variable v) = v mod int p"

fun isConstant :: "Field \<Rightarrow> bool" where
  "isConstant (Constant v) = True"
| "isConstant (Variable v) = False"

datatype Bool = ConstantB bool | VariableB bool

fun toBoolean :: "Bool \<Rightarrow> bool" where
  "toBoolean (ConstantB b) = b"
| "toBoolean (VariableB b) = b"

fun isConstantB :: "Bool \<Rightarrow> bool" where
  "isConstantB (ConstantB b) = True"
| "isConstantB (VariableB b) = False"

definition Field_from :: "nat \<Rightarrow> int \<Rightarrow> Field" where
  "Field_from p x = Constant (x mod int p)"

text \<open>
  \<open>exists(n, compute)\<close> of common.js, one computed value at a time: the value becomes a
  variable that holds its residue.
\<close>

definition exists1 :: "nat \<Rightarrow> int \<Rightarrow> Field" where
  "exists1 p v = Variable (v mod int p)"

definition Field_op :: "nat \<Rightarrow> (int \<Rightarrow> int \<Rightarrow> int) \<Rightarrow> Field \<Rightarrow> Field \<Rightarrow> Field" where
  "Field_op p f x y =
     (if isConstant x \<and> isConstant y then Constant (f (toBigInt p x) (toBigInt p y) mod int p)
      else Variable (f (toBigInt p x) (toBigInt p y) mod int p))"

definition Field_add :: "nat \<Rightarrow> Field \<Rightarrow> Field \<Rightarrow> Field" where
  "Field_add p = Field_op p (+)"

definition Field_sub :: "nat \<Rightarrow> Field \<Rightarrow> Field \<Rightarrow> Field" where
  "Field_sub p = Field_op p (-)"

definition Field_mul :: "nat \<Rightarrow> Field \<Rightarrow> Field \<Rightarrow> Field" where
  "Field_mul p = Field_op p (*)"

definition Field_equals :: "nat \<Rightarrow> Field \<Rightarrow> Field \<Rightarrow> Bool" where
  "Field_equals p x y =
     (if isConstant x \<and> isConstant y then ConstantB (toBigInt p x = toBigInt p y)
      else VariableB (toBigInt p x = toBigInt p y))"

definition Bool_and :: "Bool \<Rightarrow> Bool \<Rightarrow> Bool" where
  "Bool_and a b =
     (if isConstantB a \<and> isConstantB b then ConstantB (toBoolean a \<and> toBoolean b)
      else VariableB (toBoolean a \<and> toBoolean b))"

definition toVar :: "nat \<Rightarrow> Field \<Rightarrow> Field" where
  "toVar p x = Variable (toBigInt p x)"

type_synonym Field3 = "Field \<times> Field \<times> Field"
type_synonym Field2 = "Field \<times> Field"

fun toVars :: "nat \<Rightarrow> Field3 \<Rightarrow> Field3" where
  "toVars p (x0, x1, x2) = (toVar p x0, toVar p x1, toVar p x2)"

subsection \<open>The constraint log (gates.js, range-check.js, basic.js)\<close>

text \<open>
  Modelled from the spec: constraint rows are appended to a single ordered log, in the call
  order of the operations. The rows carry the parameters that the spec lists for them.
\<close>

datatype gate =
    ForeignFieldAdd Field3 Field3 Field Field bigint3 Sign
      \<comment> \<open>left, right, overflow, carry, modulus, sign\<close>
  | ForeignFieldMul Field3 Field3 Field2 Field3 Field Field3 Field "Field list" "Field list" int bigint3
      \<comment> \<open>left, right, remainder, quotient, quotientHiBound, product1, carry0, carry1p, carry1c,
          foreignFieldModulus2, negForeignFieldModulus\<close>
  | Zero Field3
  | MultiRangeCheck Field3
  | CompactMultiRangeCheck Field Field
  | AssertEquals Field Field
  | AssertFalse Bool
  | AssertOneOf Field "int list"

type_synonym 'a circuit = "gate list \<Rightarrow> error + ('a \<times> gate list)"

definition returnM :: "'a \<Rightarrow> 'a circuit" where
  "returnM x = (\<lambda>log. Inr (x, log))"

definition throwM :: "error \<Rightarrow> 'a circuit" where
  "throwM e = (\<lambda>log. Inl e)"

definition bindM :: "'a circuit \<Rightarrow> ('a \<Rightarrow> 'b circuit) \<Rightarrow> 'b circuit" where
  "bindM m k = (\<lambda>log. case m log of Inl e \<Rightarrow> Inl e | Inr (x, log') \<Rightarrow> k x log')"

definition liftM :: "error + 'a \<Rightarrow> 'a circuit" where
  "liftM r = (case r of Inl e \<Rightarrow> throwM e | Inr x \<Rightarrow> returnM x)"

definition emit :: "gate \<Rightarrow> unit circuit" where
  "emit g = (\<lambda>log. Inr ((), log @ [g]))"

definition assertM :: "bool \<Rightarrow> string \<Rightarrow> unit circuit" where
  "assertM stmt message = (if stmt then returnM () else throwM (AssertionError message))"

text \<open>
  A row of the log is violated when the values of its variables break it. Only the rows
  whose meaning the spec gives are decided here (a range check proves that a value lies in
  \<open>[0, 2^k)\<close>; the assertions compare values); the relation of the two foreign field rows
  lives in the proof system and is never reported as violated.
\<close>

definition inRange :: "nat \<Rightarrow> nat \<Rightarrow> Field \<Rightarrow> bool" where
  "inRange p k x = (0 \<le> toBigInt p x \<and> toBigInt p x < 2 ^ k)"

fun violated :: "nat \<Rightarrow> nat \<Rightarrow> gate \<Rightarrow> bool" where
  "violated p l (MultiRangeCheck (x, y, z)) = (\<not> (inRange p l x \<and> inRange p l y \<and> inRange p l z))"
| "violated p l (CompactMultiRangeCheck xy z) = (\<not> (inRange p (l2 l) xy \<and> inRange p l z))"
| "violated p l (AssertEquals x y) = (toBigInt p x \<noteq> toBigInt p y)"
| "violated p l (AssertFalse b) = toBoolean b"
| "violated p l (AssertOneOf x vs) = (toBigInt p x \<notin> set (map (\<lambda>v. v mod int p) vs))"
| "violated p l (ForeignFieldAdd left right overflow carry modulus sign) = False"
| "violated p l (ForeignFieldMul left right r q qb p1 c0 c1p c1c f2 nf) = False"
| "violated p l (Zero x) = False"

text \<open>
  Modelled from the spec: the assertions and range checks follow the value duality, so on
  constants they are checked at once and fail the construction, and on variables they
  append a row.
\<close>

definition Field_assertEquals :: "nat \<Rightarrow> Field \<Rightarrow> Field \<Rightarrow> unit circuit" where
  "Field_assertEquals p x y =
     (if isConstant x \<and> isConstant y
      then assertM (toBigInt p x = toBigInt p y) ''Field.assertEquals()''
      else emit (AssertEquals x y))"

definition Bool_assertFalse :: "Bool \<Rightarrow> unit circuit" where
  "Bool_assertFalse b =
     (if isConstantB b then assertM (\<not> toBoolean b) ''Bool.assertFalse()''
      else emit (AssertFalse b))"

definition assertOneOf :: "nat \<Rightarrow> Field \<Rightarrow> int list \<Rightarrow> unit circuit" where
  "assertOneOf p x allowed =
     (if isConstant x
      then assertM (toBigInt p x \<in> set (map (\<lambda>v. v mod int p) allowed)) ''assertOneOf''
      else emit (AssertOneOf x allowed))"

fun multiRangeCheck :: "nat \<Rightarrow> nat \<Rightarrow> Field3 \<Rightarrow> unit circuit" where
  "multiRangeCheck p l (x, y, z) =
     (if isConstant x \<and> isConstant y \<and> isConstant z
      then assertM (inRange p l x \<and> inRange p l y \<and> inRange p l z) ''Expected fields to fit in l bits''
      else emit (MultiRangeCheck (x, y, z)))"

definition compactMultiRangeCheck :: "nat \<Rightarrow> nat \<Rightarrow> Field \<Rightarrow> Field \<Rightarrow> Field3 circuit" where
  "compactMultiRangeCheck p l xy z =
     (if isConstant xy \<and> isConstant z
      then bindM (assertM (inRange p (l2 l) xy \<and> inRange p l z) ''Expected fields to fit in 2l and l bits'')
             (\<lambda>_. let (x, y) = split2 l (toBigInt p xy) in returnM (Field_from p x, Field_from p y, z))
      else let (x, y) = split2 l (toBigInt p xy) in
           bindM (emit (CompactMultiRangeCheck xy z)) (\<lambda>_. returnM (exists1 p x, exists1 p y, z)))"

subsection \<open>Modular arithmetic on bigints (bindings/crypto/finite_field.js)\<close>

text \<open>
  Modelled from the spec: \<open>mod\<close> and \<open>inverse\<close> of finite_field.js are not under src/.
  \<open>mod(x, p)\<close> is the residue of \<open>x\<close> modulo \<open>p\<close>; it divides by \<open>p\<close>, which throws for
  \<open>p = 0\<close>. \<open>inverse(a, p)\<close> is the inverse of \<open>a\<close> modulo \<open>p\<close> in \<open>[0, p)\<close>, or
  \<open>undefined\<close> (here \<open>None\<close>) if no inverse exists; the inverse of zero never exists.
\<close>

definition mod_bigint :: "int \<Rightarrow> int \<Rightarrow> error + int" where
  "mod_bigint x p = (if p = 0 then Inl RangeError else Inr (x mod p))"

definition modInverse :: "int \<Rightarrow> int \<Rightarrow> error + int option" where
  "modInverse a p =
     (case mod_bigint a p of
        Inl e \<Rightarrow> Inl e
      | Inr a' \<Rightarrow>
          Inr (if a' = 0 then None
               else List.find (\<lambda>z. z * a' mod p = 1) (map int [0..<nat p])))"

definition div_bigint :: "int \<Rightarrow> int \<Rightarrow> error + int" where
  "div_bigint x y = (if y = 0 then Inl RangeError else Inr (x sdiv y))"

text \<open>Modelled from the spec: \<open>bitSlice\<close> of common.js cuts \<open>len\<close> bits out of \<open>x\<close>.\<close>

definition bitSlice :: "int \<Rightarrow> nat \<Rightarrow> nat \<Rightarrow> int" where
  "bitSlice x start len = drop_bit start x AND (push_bit len 1 - 1)"

subsection \<open>Field3\<close>

fun toBigint3 :: "nat \<Rightarrow> Field3 \<Rightarrow> bigint3" where
  "toBigint3 p (x0, x1, x2) = (toBigInt p x0, toBigInt p x1, toBigInt p x2)"

definition Field3_from :: "nat \<Rightarrow> nat \<Rightarrow> int \<Rightarrow> Field3" where
  "Field3_from p l x = (case split l x of (x0, x1, x2) \<Rightarrow> (Field_from p x0, Field_from p x1, Field_from p x2))"

definition Field3_toBigint :: "nat \<Rightarrow> nat \<Rightarrow> Field3 \<Rightarrow> int" where
  "Field3_toBigint p l x = combine l (toBigint3 p x)"

fun Field3_isConstant :: "Field3 \<Rightarrow> bool" where
  "Field3_isConstant (x0, x1, x2) = (isConstant x0 \<and> isConstant x1 \<and> isConstant x2)"

fun limb0 :: "'a \<times> 'a \<times> 'a \<Rightarrow> 'a" where
  "limb0 (x0, x1, x2) = x0"

fun limb2 :: "'a \<times> 'a \<times> 'a \<Rightarrow> 'a" where
  "limb2 (x0, x1, x2) = x2"

subsection \<open>Addition chain engine\<close>

text \<open>
  The witness computation of \<open>singleAdd\<close>, the closure given to \<open>exists(5, ...)\<close>; it
  returns \<open>[r0, r1, r2, overflow, carry]\<close>. The source's \<open>x_\<close>, \<open>y_\<close> and \<open>f_\<close> are
  written \<open>x'\<close>, \<open>y'\<close> and \<open>f'\<close>.
\<close>

definition singleAdd_witness ::
  "nat \<Rightarrow> bigint3 \<Rightarrow> bigint3 \<Rightarrow> Sign \<Rightarrow> int \<Rightarrow> int \<times> int \<times> int \<times> int \<times> int" where
  "singleAdd_witness l x' y' sign f =
     (let f' = split l f;
          r = combine l x' + sign_val sign * combine l y';
          overflow = 0;
          overflow = (if sign = Plus \<and> r \<ge> f then 1 else overflow);
          overflow = (if sign = Minus \<and> r < 0 then - 1 else overflow);
          overflow = (if f = 0 then 0 else overflow);
          r01 = combine2_3 l x' + sign_val sign * combine2_3 l y' - overflow * combine2_3 l f';
          carry = drop_bit (l2 l) r01;
          r01 = r01 AND l2Mask l;
          (r0, r1) = split2 l r01;
          r2 = limb2 x' + sign_val sign * limb2 y' - overflow * limb2 f' + carry
      in (r0, r1, r2, overflow, carry))"

text \<open>\<open>exists\<close> makes every computed value a variable. The result is \<open>{ result, overflow }\<close>.\<close>

definition singleAdd :: "nat \<Rightarrow> nat \<Rightarrow> Field3 \<Rightarrow> Field3 \<Rightarrow> Sign \<Rightarrow> int \<Rightarrow> (Field3 \<times> Field) circuit" where
  "singleAdd p l x y sign f =
     (let f' = split l f;
          (r0, r1, r2, overflow, carry) = singleAdd_witness l (toBigint3 p x) (toBigint3 p y) sign f
      in bindM (emit (ForeignFieldAdd x y (exists1 p overflow) (exists1 p carry) f' sign))
           (\<lambda>_. returnM ((exists1 p r0, exists1 p r1, exists1 p r2), exists1 p overflow)))"

text \<open>
  The loop \<open>for (i = 0; i < sign.length; i++) ({ result } = singleAdd(result, x[i + 1], sign[i], f))\<close>,
  given the terms from \<open>x[1]\<close> on. Reading the limbs of a term past the end of \<open>x\<close> throws.
\<close>

fun addChain :: "nat \<Rightarrow> nat \<Rightarrow> int \<Rightarrow> Field3 \<Rightarrow> Sign list \<Rightarrow> Field3 list \<Rightarrow> Field3 circuit" where
  "addChain p l f result [] xs = returnM result"
| "addChain p l f result (s # sign) [] = throwM TypeError"
| "addChain p l f result (s # sign) (xi # xs) =
     bindM (singleAdd p l result xi s f) (\<lambda>(result', overflow). addChain p l f result' sign xs)"

text \<open>The function \<open>sum\<close> of the source; the name \<open>sum\<close> is taken in HOL.\<close>

definition sum_ff :: "nat \<Rightarrow> nat \<Rightarrow> Field3 list \<Rightarrow> Sign list \<Rightarrow> int \<Rightarrow> Field3 circuit" where
  "sum_ff p l x sign f =
     bindM (assertM (length x = length sign + 1) ''inputs and operators match'') (\<lambda>_.
       if list_all Field3_isConstant x then
         (let xBig = map (Field3_toBigint p l) x;
              sum = foldl (\<lambda>sum (s, xi). sum + sign_val s * xi) (hd xBig) (zip sign (tl xBig))
          in bindM (liftM (mod_bigint sum f)) (\<lambda>m. returnM (Field3_from p l m)))
       else
         (let x = map (toVars p) x in
          bindM (addChain p l f (hd x) sign (tl x)) (\<lambda>result.
          bindM (emit (Zero result)) (\<lambda>_.
          bindM (multiRangeCheck p l result) (\<lambda>_.
          returnM result)))))"

subsection \<open>Multiplication core\<close>

text \<open>
  The witness computation of \<open>multiplyNoRangeCheck\<close>, the closure given to
  \<open>exists(21, ...)\<close>, with the constants \<open>f_\<close> and \<open>f2Bound\<close> that it captures.
\<close>

definition multiply_witness ::
  "nat \<Rightarrow> bigint3 \<Rightarrow> bigint3 \<Rightarrow> int \<Rightarrow> bigint3 \<Rightarrow> int \<Rightarrow>
   error + (int \<times> int \<times> int \<times> int \<times> int \<times> int \<times> int \<times> int \<times> int \<times> int \<times> int list \<times> int list)" where
  "multiply_witness l a b f nf f2Bound =
     (case (a, b, nf) of ((a0, a1, a2), (b0, b1, b2), (f_0, f_1, f_2)) \<Rightarrow>
      let ab = combine l (a0, a1, a2) * combine l (b0, b1, b2) in
      case div_bigint ab f of
        Inl e \<Rightarrow> Inl e
      | Inr q \<Rightarrow>
         (let r = ab - q * f;
              (q0, q1, q2) = split l q;
              (r0, r1, r2) = split l r;
              r01 = combine2 l (r0, r1);
              p0 = a0 * b0 + q0 * f_0;
              p1 = a0 * b1 + a1 * b0 + q0 * f_1 + q1 * f_0;
              p2 = a0 * b2 + a1 * b1 + a2 * b0 + q0 * f_2 + q1 * f_1 + q2 * f_0;
              (p10, p110, p111) = split l p1;
              p11 = combine2 l (p110, p111);
              c0 = drop_bit (l2 l) (p0 + push_bit l p10 - r01);
              c1 = drop_bit l (p2 - r2 + p11 + c0);
              c1_00 = bitSlice c1 0 12;
              c1_12 = bitSlice c1 12 12;
              c1_24 = bitSlice c1 24 12;
              c1_36 = bitSlice c1 36 12;
              c1_48 = bitSlice c1 48 12;
              c1_60 = bitSlice c1 60 12;
              c1_72 = bitSlice c1 72 12;
              c1_84 = bitSlice c1 84 2;
              c1_86 = bitSlice c1 86 2;
              c1_88 = bitSlice c1 88 2;
              c1_90 = bitSlice c1 90 1;
              q2Bound = q2 + f2Bound
          in Inr (r01, r2, q0, q1, q2, q2Bound, p10, p110, p111, c0,
                  [c1_00, c1_12, c1_24, c1_36, c1_48, c1_60, c1_72],
                  [c1_84, c1_86, c1_88, c1_90])))"

text \<open>The result is \<open>{ r01, r2, q }\<close>.\<close>

definition multiplyNoRangeCheck ::
  "nat \<Rightarrow> nat \<Rightarrow> Field3 \<Rightarrow> Field3 \<Rightarrow> int \<Rightarrow> (Field \<times> Field \<times> Field3) circuit" where
  "multiplyNoRangeCheck p l a b f =
     (let f' = push_bit (l3 l) 1 - f;
          (f_0, f_1, f_2) = split l f';
          f2 = drop_bit (l2 l) f;
          f2Bound = push_bit l 1 - f2 - 1
      in bindM (liftM (multiply_witness l (toBigint3 p a) (toBigint3 p b) f (f_0, f_1, f_2) f2Bound))
           (\<lambda>(r01, r2, q0, q1, q2, q2Bound, p10, p110, p111, c0, c1p, c1c).
              let q = (exists1 p q0, exists1 p q1, exists1 p q2) in
              bindM (emit (ForeignFieldMul a b (exists1 p r01, exists1 p r2) q (exists1 p q2Bound)
                             (exists1 p p10, exists1 p p110, exists1 p p111) (exists1 p c0)
                             (map (exists1 p) c1p) (map (exists1 p) c1c) f2 (f_0, f_1, f_2))) (\<lambda>_.
              bindM (multiRangeCheck p l (exists1 p p10, exists1 p p110, exists1 p q2Bound)) (\<lambda>_.
              returnM (exists1 p r01, exists1 p r2, q)))))"

definition multiply :: "nat \<Rightarrow> nat \<Rightarrow> Field3 \<Rightarrow> Field3 \<Rightarrow> int \<Rightarrow> Field3 circuit" where
  "multiply p l a b f =
     bindM (assertM (f < push_bit 259 1) ''Foreign modulus fits in 259 bits'') (\<lambda>_.
       if Field3_isConstant a \<and> Field3_isConstant b then
         (let ab = Field3_toBigint p l a * Field3_toBigint p l b
          in bindM (liftM (mod_bigint ab f)) (\<lambda>m. returnM (Field3_from p l m)))
       else
         bindM (multiplyNoRangeCheck p l a b f) (\<lambda>(r01, r2, q).
         bindM (multiRangeCheck p l q) (\<lambda>_.
         bindM (compactMultiRangeCheck p l r01 r2) (\<lambda>r.
         returnM r))))"

text \<open>The expected product of \<open>assertMulInternal\<close> is a \<open>Field3 | Field2\<close>.\<close>

datatype Field3or2 = Three Field3 | Two Field2

definition assertMulInternal :: "nat \<Rightarrow> nat \<Rightarrow> Field3 \<Rightarrow> Field3 \<Rightarrow> Field3or2 \<Rightarrow> int \<Rightarrow> unit circuit" where
  "assertMulInternal p l x y xy f =
     bindM (multiplyNoRangeCheck p l x y f) (\<lambda>(r01, r2, q).
     bindM (multiRangeCheck p l q) (\<lambda>_.
       case xy of
         Two (xy01, xy2) \<Rightarrow>
           bindM (Field_assertEquals p r01 xy01) (\<lambda>_. Field_assertEquals p r2 xy2)
       | Three (xy0, xy1, xy2) \<Rightarrow>
           (let xy01 = Field_add p xy0 (Field_mul p xy1 (Field_from p (push_bit l 1)))
            in bindM (Field_assertEquals p r01 xy01) (\<lambda>_. Field_assertEquals p r2 xy2))))"

definition weakBound :: "nat \<Rightarrow> nat \<Rightarrow> Field \<Rightarrow> int \<Rightarrow> Field" where
  "weakBound p l x f = Field_add p x (Field_from p (lMask l - drop_bit (l2 l) f))"

subsection \<open>Division and inversion\<close>

text \<open>
  The functions \<open>inverse\<close> and \<open>divide\<close> of the source; both names are taken in HOL.
  The options object \<open>{ allowZeroOverZero = false }\<close> of \<open>divide\<close> is a boolean
  argument.
\<close>

definition inverse_ff :: "nat \<Rightarrow> nat \<Rightarrow> Field3 \<Rightarrow> int \<Rightarrow> Field3 circuit" where
  "inverse_ff p l x f =
     bindM (assertM (f < push_bit 259 1) ''Foreign modulus fits in 259 bits'') (\<lambda>_.
       if Field3_isConstant x then
         bindM (liftM (modInverse (Field3_toBigint p l x) f)) (\<lambda>xInv.
           case xInv of
             None \<Rightarrow> throwM (AssertionError ''inverse exists'')
           | Some xInv \<Rightarrow> returnM (Field3_from p l xInv))
       else
         bindM (liftM (modInverse (Field3_toBigint p l x) f)) (\<lambda>xInv.
         let (i0, i1, i2) = (case xInv of None \<Rightarrow> (0, 0, 0) | Some xInv \<Rightarrow> split l xInv);
             xInv = (exists1 p i0, exists1 p i1, exists1 p i2) in
         bindM (multiRangeCheck p l xInv) (\<lambda>_.
         let xInv2Bound = weakBound p l (limb2 xInv) f;
             one = (Field_from p 1, Field_from p 0) in
         bindM (assertMulInternal p l x xInv (Two one) f) (\<lambda>_.
         bindM (multiRangeCheck p l (xInv2Bound, Field_from p 0, Field_from p 0)) (\<lambda>_.
         returnM xInv)))))"

definition divide_ff :: "nat \<Rightarrow> nat \<Rightarrow> Field3 \<Rightarrow> Field3 \<Rightarrow> int \<Rightarrow> bool \<Rightarrow> Field3 circuit" where
  "divide_ff p l x y f allowZeroOverZero =
     bindM (assertM (f < push_bit 259 1) ''Foreign modulus fits in 259 bits'') (\<lambda>_.
       if Field3_isConstant x \<and> Field3_isConstant y then
         bindM (liftM (modInverse (Field3_toBigint p l y) f)) (\<lambda>yInv.
           case yInv of
             None \<Rightarrow> throwM (AssertionError ''inverse exists'')
           | Some yInv \<Rightarrow>
               bindM (liftM (mod_bigint (Field3_toBigint p l x * yInv) f)) (\<lambda>m.
               returnM (Field3_from p l m)))
       else
         bindM (liftM (modInverse (Field3_toBigint p l y) f)) (\<lambda>yInv.
         bindM (case yInv of
                  None \<Rightarrow> returnM (0, 0, 0)
                | Some yInv \<Rightarrow>
                    bindM (liftM (mod_bigint (Field3_toBigint p l x * yInv) f)) (\<lambda>m.
                    returnM (split l m))) (\<lambda>(z0, z1, z2).
         let z = (exists1 p z0, exists1 p z1, exists1 p z2) in
         bindM (multiRangeCheck p l z) (\<lambda>_.
         let z2Bound = weakBound p l (limb2 z) f in
         bindM (assertMulInternal p l z y (Three x) f) (\<lambda>_.
         bindM (multiRangeCheck p l (z2Bound, Field_from p 0, Field_from p 0)) (\<lambda>_.
         bindM (if \<not> allowZeroOverZero then
                  (case y of (y0, y1, y2) \<Rightarrow>
                   let y01 = Field_add p y0 (Field_mul p y1 (Field_from p (push_bit l 1))) in
                   bindM (Bool_assertFalse
                            (Bool_and (Field_equals p y01 (Field_from p 0))
                                      (Field_equals p y2 (Field_from p 0)))) (\<lambda>_.
                   let (f0, f1, f2) = split l f;
                       f01 = combine2 l (f0, f1) in
                   Bool_assertFalse
                     (Bool_and (Field_equals p y01 (Field_from p f01))
                               (Field_equals p y2 (Field_from p f2)))))
                else returnM ()) (\<lambda>_.
         returnM z)))))))"

subsection \<open>The public surface\<close>

definition ForeignField_add :: "nat \<Rightarrow> nat \<Rightarrow> Field3 \<Rightarrow> Field3 \<Rightarrow> int \<Rightarrow> Field3 circuit" where
  "ForeignField_add p l x y f = sum_ff p l [x, y] [Plus] f"

definition ForeignField_sub :: "nat \<Rightarrow> nat \<Rightarrow> Field3 \<Rightarrow> Field3 \<Rightarrow> int \<Rightarrow> Field3 circuit" where
  "ForeignField_sub p l x y f = sum_ff p l [x, y] [Minus] f"



subsection \<open>The deferred chain (class Sum)\<close>

text \<open>
  The private fields \<open>#result\<close>, \<open>#summands\<close> and \<open>#ops\<close>. A method that changes the
  object returns the changed object.
\<close>

record Sum =
  priv_result :: "Field3 option"
  priv_summands :: "Field3 list"
  priv_ops :: "Sign list"

definition Sum_new :: "Field3 \<Rightarrow> Sum" where
  "Sum_new x = \<lparr>priv_result = None, priv_summands = [x], priv_ops = []\<rparr>"

definition Sum_result :: "Sum \<Rightarrow> error + Field3" where
  "Sum_result this =
     (case priv_result this of
        None \<Rightarrow> Inl (AssertionError ''sum not finished'')
      | Some r \<Rightarrow> Inr r)"

definition Sum_length :: "Sum \<Rightarrow> nat" where
  "Sum_length this = length (priv_summands this)"

definition Sum_add :: "Sum \<Rightarrow> Field3 \<Rightarrow> error + Sum" where
  "Sum_add this y =
     (if priv_result this = None
      then Inr (this\<lparr>priv_ops := priv_ops this @ [Plus], priv_summands := priv_summands this @ [y]\<rparr>)
      else Inl (AssertionError ''sum already finished''))"

definition Sum_sub :: "Sum \<Rightarrow> Field3 \<Rightarrow> error + Sum" where
  "Sum_sub this y =
     (if priv_result this = None
      then Inr (this\<lparr>priv_ops := priv_ops this @ [Minus], priv_summands := priv_summands this @ [y]\<rparr>)
      else Inl (AssertionError ''sum already finished''))"

definition Sum_return :: "Sum \<Rightarrow> Field3 \<Rightarrow> Field3 \<times> Sum" where
  "Sum_return this x = (x, this\<lparr>priv_result := Some x\<rparr>)"

definition Sum_isConstant :: "Sum \<Rightarrow> bool" where
  "Sum_isConstant this = list_all Field3_isConstant (priv_summands this)"

text \<open>
  The constructor puts one summand and \<open>add\<close>/\<open>sub\<close> only push, so \<open>#summands[0]\<close> is
  always there; on an empty list (which no method builds) the model fails with a TypeError.
\<close>

definition Sum_finish :: "nat \<Rightarrow> nat \<Rightarrow> Sum \<Rightarrow> int \<Rightarrow> bool \<Rightarrow> (Field3 \<times> Sum) circuit" where
  "Sum_finish p l this f isChained =
     bindM (assertM (priv_result this = None) ''sum already finished'') (\<lambda>_.
       let signs = priv_ops this;
           n = length signs in
       if n = 0 then
         (case priv_summands this of
            [] \<Rightarrow> throwM TypeError
          | x0 # _ \<Rightarrow> returnM (Sum_return this x0))
       else if Sum_isConstant this then
         bindM (sum_ff p l (priv_summands this) signs f) (\<lambda>r. returnM (Sum_return this r))
       else
         (let x = map (toVars p) (priv_summands this) in
          bindM (addChain p l f (hd x) signs (tl x)) (\<lambda>result.
          bindM (if \<not> isChained then emit (Zero result) else returnM ()) (\<lambda>_.
          returnM (result, this\<lparr>priv_result := Some result\<rparr>)))))"

text \<open>
  The witness computation of the first loop of \<open>finishForMulInput\<close>: it returns
  \<open>[carry, overflow]\<close> and the new value of the accumulator \<open>xRef\<close>.
\<close>

definition lowLimb_witness ::
  "nat \<Rightarrow> int \<Rightarrow> int \<Rightarrow> int \<Rightarrow> bigint3 \<Rightarrow> Sign \<Rightarrow> (int \<times> int) \<times> int" where
  "lowLimb_witness l f f0 xRef xi sign =
     (let x = xRef;
          x0 = x AND lMask l;
          x = x + sign_val sign * combine l xi;
          overflow = 0;
          overflow = (if sign = Plus \<and> x \<ge> f then 1 else overflow);
          overflow = (if sign = Minus \<and> x < 0 then - 1 else overflow);
          overflow = (if f = 0 then 0 else overflow);
          xRef' = x - overflow * f;
          x0 = x0 + sign_val sign * limb0 xi - overflow * f0;
          carry = drop_bit l x0
      in ((carry, overflow), xRef'))"

text \<open>
  The first loop (generic gates for the low limbs), with its loop variables \<open>x0\<close>,
  \<open>xRef\<close>, \<open>x0s\<close> and \<open>overflows\<close>, given the signs and the terms from \<open>xs[1]\<close> on.
\<close>

fun lowLimbs ::
  "nat \<Rightarrow> nat \<Rightarrow> int \<Rightarrow> int \<Rightarrow> Field \<Rightarrow> int \<Rightarrow> Field list \<Rightarrow> Field list \<Rightarrow> Sign list \<Rightarrow> Field3 list
   \<Rightarrow> (Field list \<times> Field list) circuit" where
  "lowLimbs p l f f0 x0 xRef x0s overflows [] xs = returnM (x0s, overflows)"
| "lowLimbs p l f f0 x0 xRef x0s overflows (sign # signs) [] = throwM TypeError"
| "lowLimbs p l f f0 x0 xRef x0s overflows (sign # signs) (xi # xs) =
     (let ((carry, overflow), xRef') = lowLimb_witness l f f0 xRef (toBigint3 p xi) sign;
          carry = exists1 p carry;
          overflow = exists1 p overflow;
          overflows = overflows @ [overflow] in
      bindM (assertOneOf p carry [0, 1, - 1]) (\<lambda>_.
      let x0 = toVar p
                 (Field_sub p
                    (Field_sub p (Field_add p x0 (Field_mul p (limb0 xi) (Field_from p (sign_val sign))))
                               (Field_mul p overflow (Field_from p f0)))
                    (Field_mul p carry (Field_from p (push_bit l 1))));
          x0s = x0s @ [x0] in
      lowLimbs p l f f0 x0 xRef' x0s overflows signs xs))"

text \<open>The second loop (the ffadd chain), wired to the values of the first.\<close>

fun mulInputChain ::
  "nat \<Rightarrow> nat \<Rightarrow> int \<Rightarrow> Field3 \<Rightarrow> Sign list \<Rightarrow> Field3 list \<Rightarrow> Field list \<Rightarrow> Field list \<Rightarrow> Field3 circuit" where
  "mulInputChain p l f x [] xs x0s overflows = returnM x"
| "mulInputChain p l f x (sign # signs) [] x0s overflows = throwM TypeError"
| "mulInputChain p l f x (sign # signs) (xi # xs) (x0i # x0s) (oi # overflows) =
     bindM (singleAdd p l x xi sign f) (\<lambda>(result, overflow).
     bindM (Field_assertEquals p (limb0 result) x0i) (\<lambda>_.
     bindM (Field_assertEquals p overflow oi) (\<lambda>_.
     mulInputChain p l f result signs xs x0s overflows)))"
| "mulInputChain p l f x (sign # signs) (xi # xs) x0s overflows = throwM TypeError"

definition Sum_finishForMulInput :: "nat \<Rightarrow> nat \<Rightarrow> Sum \<Rightarrow> int \<Rightarrow> bool \<Rightarrow> (Field3 \<times> Sum) circuit" where
  "Sum_finishForMulInput p l this f isChained =
     bindM (assertM (priv_result this = None) ''sum already finished'') (\<lambda>_.
       let signs = priv_ops this;
           n = length signs in
       if n = 0 then
         (case priv_summands this of
            [] \<Rightarrow> throwM TypeError
          | x0 # _ \<Rightarrow> returnM (Sum_return this x0))
       else if Sum_isConstant this then
         bindM (sum_ff p l (priv_summands this) signs f) (\<lambda>r. returnM (Sum_return this r))
       else
         (let xs = map (toVars p) (priv_summands this);
              f0 = f AND lMask l;
              x0 = limb0 (hd xs);
              xRef = Field3_toBigint p l (hd xs) in
          bindM (lowLimbs p l f f0 x0 xRef [] [] signs (tl xs)) (\<lambda>(x0s, overflows).
          bindM (mulInputChain p l f (hd xs) signs (tl xs) x0s overflows) (\<lambda>x.
          bindM (if \<not> isChained then emit (Zero x) else returnM ()) (\<lambda>_.
          returnM (x, this\<lparr>priv_result := Some x\<rparr>))))))"

definition Sum_rangeCheck :: "nat \<Rightarrow> nat \<Rightarrow> Sum \<Rightarrow> unit circuit" where
  "Sum_rangeCheck p l this =
     (case priv_result this of
        None \<Rightarrow> throwM (AssertionError ''sum not finished'')
      | Some r \<Rightarrow> if length (priv_ops this) > 0 then multiRangeCheck p l r else returnM ())"

datatype Field3orSum = ASum Sum | AField3 Field3

fun Sum_fromUnfinished :: "Field3orSum \<Rightarrow> error + Sum" where
  "Sum_fromUnfinished (ASum x) =
     (if priv_result x = None then Inr x else Inl (AssertionError ''sum already finished''))"
| "Sum_fromUnfinished (AField3 x) = Inr (Sum_new x)"

subsection \<open>Auxiliary notions for the statements\<close>

text \<open>
  A concrete native modulus for the instances: the order of the Pallas base field, a prime
  of 255 bits.
\<close>

definition pallas_p :: nat where
  "pallas_p = 2 ^ 254 + 45560315531419706090280762371685220353"

text \<open>
  The overflow indicator that \<open>singleAdd\<close> (and the first loop of \<open>finishForMulInput\<close>)
  computes from the modulus, the sign and the raw sum \<open>r\<close>.
\<close>

definition add_overflow :: "int \<Rightarrow> Sign \<Rightarrow> int \<Rightarrow> int" where
  "add_overflow f sign r =
     (if f = 0 then 0
      else if sign = Minus \<and> r < 0 then - 1
      else if sign = Plus \<and> f \<le> r then 1
      else 0)"

text \<open>
  The remainder \<open>r = ab - q * f\<close> that the witness computation of \<open>multiplyNoRangeCheck\<close>
  computes, with the truncating quotient \<open>q = ab / f\<close>.
\<close>

definition mul_remainder :: "nat \<Rightarrow> nat \<Rightarrow> Field3 \<Rightarrow> Field3 \<Rightarrow> int \<Rightarrow> int" where
  "mul_remainder p l a b f =
     Field3_toBigint p l a * Field3_toBigint p l b
       - (Field3_toBigint p l a * Field3_toBigint p l b) sdiv f * f"

text \<open>What an operation returns (its value or its error), without the log.\<close>

definition outcome :: "error + ('a \<times> gate list) \<Rightarrow> error + 'a" where
  "outcome r = (case r of Inl e \<Rightarrow> Inl e | Inr (x, log) \<Rightarrow> Inr x)"

text \<open>
  The finalization that the spec compares \<open>finishForMulInput\<close> with: \<open>finish\<close> followed by
  an explicit range check of the finished Sum.
\<close>

definition finish_then_rangeCheck :: "nat \<Rightarrow> nat \<Rightarrow> Sum \<Rightarrow> int \<Rightarrow> bool \<Rightarrow> (Field3 \<times> Sum) circuit" where
  "finish_then_rangeCheck p l this f isChained =
     bindM (Sum_finish p l this f isChained) (\<lambda>(r, this').
     bindM (Sum_rangeCheck p l this') (\<lambda>_.
     returnM (r, this')))"

text \<open>
  The two rows that the zero guard of \<open>divide\<close> appends for a divisor with a variable limb:
  the divisor's combined low and middle limb (a field element, computed in the native
  field) and its high limb are compared with \<open>0\<close> and with the split of \<open>f\<close>, and each
  comparison is asserted false.
\<close>

definition zero_guard_rows :: "nat \<Rightarrow> nat \<Rightarrow> Field3 \<Rightarrow> int \<Rightarrow> gate list" where
  "zero_guard_rows p l y f =
     (case (y, split l f) of
        ((y0, y1, y2), (f0, f1, f2)) \<Rightarrow>
          (let y01 = toBigInt p (Field_add p y0 (Field_mul p y1 (Field_from p (push_bit l 1))));
               f01 = combine2 l (f0, f1)
           in [AssertFalse (VariableB (y01 = 0 \<and> toBigInt p y2 = 0)),
               AssertFalse (VariableB (y01 = f01 mod int p \<and> toBigInt p y2 = f2 mod int p))]))"

text \<open>
  The quotient that \<open>divide\<close> witnesses outside the constant case: the limbs of
  \<open>x * yInv mod f\<close>, or three zero limbs when \<open>y\<close> has no inverse.
\<close>

definition divide_witness :: "nat \<Rightarrow> nat \<Rightarrow> Field3 \<Rightarrow> int \<Rightarrow> int option \<Rightarrow> Field3" where
  "divide_witness p l x f yInv =
     (case (case yInv of None \<Rightarrow> (0, 0, 0) | Some i \<Rightarrow> split l ((Field3_toBigint p l x * i) mod f)) of
        (z0, z1, z2) \<Rightarrow> (exists1 p z0, exists1 p z1, exists1 p z2))"

text \<open>
  A limb triple is range-checked when each of its limbs lies in \<open>[0, 2^l)\<close>, which is what
  a multi-range-check row asserts of it. The gadgets assume it of their inputs.
\<close>

fun rangeChecked :: "nat \<Rightarrow> nat \<Rightarrow> Field3 \<Rightarrow> bool" where
  "rangeChecked p l (x0, x1, x2) = (inRange p l x0 \<and> inRange p l x1 \<and> inRange p l x2)"

section \<open>Properties\<close>

subsection \<open>The circuit monad\<close>

lemma bindM_returnM [simp]: "bindM (returnM x) k = k x"
  by (simp add: bindM_def returnM_def)

lemma bindM_throwM [simp]: "bindM (throwM e) k = throwM e"
  by (simp add: bindM_def throwM_def)

lemma bindM_emit [simp]: "bindM (emit g) k log = k () (log @ [g])"
  by (simp add: bindM_def emit_def)

lemma assertM_True [simp]: "assertM True m = returnM ()"
  by (simp add: assertM_def)

lemma assertM_False [simp]: "assertM False m = throwM (AssertionError m)"
  by (simp add: assertM_def)

lemma liftM_simps [simp]: "liftM (Inr x) = returnM x" "liftM (Inl e) = throwM e"
  by (simp_all add: liftM_def)

lemma throwM_apply [simp]: "throwM e log = Inl e"
  by (simp add: throwM_def)

lemma returnM_apply [simp]: "returnM x log = Inr (x, log)"
  by (simp add: returnM_def)

lemma bindM_Inr: "bindM m k log = Inr r \<longleftrightarrow> (\<exists>x log'. m log = Inr (x, log') \<and> k x log' = Inr r)"
  by (auto simp: bindM_def split: sum.splits)

subsection \<open>Bit arithmetic\<close>

lemma and_lMask: "x AND lMask l = take_bit l x"
  by (simp add: lMask_def take_bit_eq_mask mask_eq_exp_minus_1 push_bit_eq_mult)

lemma and_l2Mask: "x AND l2Mask l = take_bit (l2 l) x"
  by (simp add: l2Mask_def take_bit_eq_mask mask_eq_exp_minus_1 push_bit_eq_mult)

lemma take_bit_add_limbs:
  "take_bit (m + n) (x::int) = take_bit m x + push_bit m (take_bit n (drop_bit m x))"
proof -
  have "x mod (2 ^ m * 2 ^ n) = 2 ^ m * (x div 2 ^ m mod 2 ^ n) + x mod 2 ^ m"
    by (rule zmod_zmult2_eq) simp
  then show ?thesis
    by (simp add: take_bit_eq_mod drop_bit_eq_div push_bit_eq_mult power_add)
qed

lemma combine2_split2: "combine2 l (split2 l x) = take_bit (l2 l) x"
  using take_bit_add_limbs [of l l x]
  by (simp add: split2_def and_lMask l2_def mult_2)

lemma combine_split: "combine l (split l x) = take_bit (l3 l) x"
proof -
  have "take_bit (l2 l + l) x = take_bit (l2 l) x + push_bit (l2 l) (take_bit l (drop_bit (l2 l) x))"
    by (rule take_bit_add_limbs)
  moreover have "l2 l + l = l3 l"
    by (simp add: l2_def l3_def)
  moreover have "take_bit (l2 l) x = take_bit l x + push_bit l (take_bit l (drop_bit l x))"
    using take_bit_add_limbs [of l l x] by (simp add: l2_def mult_2)
  ultimately show ?thesis
    by (simp add: split_def and_lMask)
qed

lemma combine_split_id:
  assumes "0 \<le> x" and "x < 2 ^ l3 l"
  shows "combine l (split l x) = x"
  using assms by (simp add: combine_split take_bit_int_eq_self)

subsection \<open>Round trip of the limb codec\<close>

text \<open>
  C9. For every integer \<open>x\<close> in \<open>[0, 2^l3)\<close>, splitting \<open>x\<close> into a limb triple and
  combining the triple again gives \<open>x\<close>. Both functions are total HOL functions without an
  error result.
\<close>

theorem C9_combine_split_roundtrip:
  "0 \<le> x \<and> x < 2 ^ l3 l \<longrightarrow> combine l (split l x) = x"
  by (simp add: combine_split take_bit_int_eq_self)

theorem C9_combine_split_roundtrip_witness:
  "0 \<le> (2 ^ 264 - 1 :: int) \<and> (2 ^ 264 - 1 :: int) < 2 ^ l3 88
    \<and> combine 88 (split 88 (2 ^ 264 - 1)) = 2 ^ 264 - 1"
  using C9_combine_split_roundtrip [of "2 ^ 264 - 1" 88] by (simp add: l3_def)

subsection \<open>The supported range of the modulus\<close>

text \<open>
  C8. For every modulus \<open>f \<ge> 2^259\<close>, each of \<open>multiply(a, b, f)\<close>, \<open>inverse(x, f)\<close> and
  \<open>divide(x, y, f)\<close> fails at once, before anything is computed or emitted, with the
  assertion error "Foreign modulus fits in 259 bits", for all operands, constant or not.
\<close>

theorem C8_modulus_too_large_fails:
  "2 ^ 259 \<le> f \<longrightarrow>
     multiply p l a b f log = Inl (AssertionError ''Foreign modulus fits in 259 bits'')
   \<and> inverse_ff p l x f log = Inl (AssertionError ''Foreign modulus fits in 259 bits'')
   \<and> divide_ff p l x y f allowZeroOverZero log = Inl (AssertionError ''Foreign modulus fits in 259 bits'')"
  by (simp add: multiply_def inverse_ff_def divide_ff_def)

theorem C8_modulus_too_large_fails_witness:
  "(2::int) ^ 259 \<le> 2 ^ 259 \<and>
     multiply pallas_p 88 (Constant 1, Constant 0, Constant 0) (Variable 2, Variable 0, Variable 0) (2 ^ 259) []
       = Inl (AssertionError ''Foreign modulus fits in 259 bits'')
   \<and> inverse_ff pallas_p 88 (Constant 3, Constant 0, Constant 0) (2 ^ 259) []
       = Inl (AssertionError ''Foreign modulus fits in 259 bits'')
   \<and> divide_ff pallas_p 88 (Constant 3, Constant 0, Constant 0) (Constant 3, Constant 0, Constant 0) (2 ^ 259) True []
       = Inl (AssertionError ''Foreign modulus fits in 259 bits'')"
  using C8_modulus_too_large_fails [where p = pallas_p and f = "2 ^ 259" and l = 88
      and a = "(Constant 1, Constant 0, Constant 0)" and b = "(Variable 2, Variable 0, Variable 0)"
      and log = "[]" and x = "(Constant 3, Constant 0, Constant 0)"
      and y = "(Constant 3, Constant 0, Constant 0)" and allowZeroOverZero = True]
  by simp

subsection \<open>The state machine of Sum\<close>

text \<open>
  C10. A Sum made from a limb triple \<open>x\<close> on which neither \<open>add\<close> nor \<open>sub\<close> was called
  is finished (by \<open>finish\<close> and by \<open>finishForMulInput\<close>, for any modulus and either
  value of \<open>isChained\<close>) with \<open>x\<close> itself as the result and with the log unchanged: nothing
  is reduced and no row is emitted. \<open>rangeCheck\<close> on the finished Sum leaves the log
  unchanged too.
\<close>

theorem C10_untouched_sum_returned_unchanged:
  "Sum_finish p l (Sum_new x) f isChained log
     = Inr ((x, (Sum_new x)\<lparr>priv_result := Some x\<rparr>), log)
   \<and> Sum_finishForMulInput p l (Sum_new x) f isChained log
     = Inr ((x, (Sum_new x)\<lparr>priv_result := Some x\<rparr>), log)
   \<and> Sum_rangeCheck p l ((Sum_new x)\<lparr>priv_result := Some x\<rparr>) log' = Inr ((), log')"
  by (simp add: Sum_finish_def Sum_finishForMulInput_def Sum_rangeCheck_def Sum_new_def Sum_return_def)

lemma Sum_finish_sets_result:
  assumes "Sum_finish p l s f isChained log = Inr ((r, s'), log')"
  shows "priv_result s = None \<and> priv_result s' = Some r"
  using assms
  by (auto simp: Sum_finish_def Sum_return_def Let_def assertM_def bindM_Inr emit_def
           split: if_splits list.splits)

lemma Sum_finishForMulInput_sets_result:
  assumes "Sum_finishForMulInput p l s f isChained log = Inr ((r, s'), log')"
  shows "priv_result s = None \<and> priv_result s' = Some r"
  using assms
  by (auto simp: Sum_finishForMulInput_def Sum_return_def Let_def assertM_def bindM_Inr emit_def
           split: if_splits list.splits)

text \<open>
  C7. A Sum is building (\<open>#result\<close> undefined) or finalized. A new Sum is building; while a
  Sum is building, reading \<open>result\<close> fails and \<open>add\<close>/\<open>sub\<close> keep it building. A successful
  \<open>finish\<close> or \<open>finishForMulInput\<close> starts from a building Sum and leaves a finalized one
  that holds the returned result. On a finalized Sum each of \<open>add\<close>, \<open>sub\<close>, \<open>finish\<close>,
  \<open>finishForMulInput\<close> and \<open>fromUnfinished\<close> fails, so a Sum is finalized at most once.
\<close>

theorem C7_sum_finalized_at_most_once:
  "(priv_result (Sum_new x) = None)
   \<and> (priv_result s = None \<longrightarrow>
        Sum_result s = Inl (AssertionError ''sum not finished'')
        \<and> (\<exists>s1 s2. Sum_add s y = Inr s1 \<and> priv_result s1 = None
                  \<and> Sum_sub s y = Inr s2 \<and> priv_result s2 = None))
   \<and> ((Sum_finish p l s f isChained log = Inr ((r, s'), log')
         \<or> Sum_finishForMulInput p l s f isChained log = Inr ((r, s'), log')) \<longrightarrow>
        priv_result s = None \<and> priv_result s' = Some r \<and> Sum_result s' = Inr r)
   \<and> (priv_result t \<noteq> None \<longrightarrow>
        Sum_add t y = Inl (AssertionError ''sum already finished'')
        \<and> Sum_sub t y = Inl (AssertionError ''sum already finished'')
        \<and> Sum_finish p l t f isChained log = Inl (AssertionError ''sum already finished'')
        \<and> Sum_finishForMulInput p l t f isChained log = Inl (AssertionError ''sum already finished'')
        \<and> Sum_fromUnfinished (ASum t) = Inl (AssertionError ''sum already finished''))"
proof (intro conjI impI)
  show "priv_result (Sum_new x) = None"
    by (simp add: Sum_new_def)
next
  assume "priv_result s = None"
  then show "Sum_result s = Inl (AssertionError ''sum not finished'')"
    by (simp add: Sum_result_def)
next
  assume "priv_result s = None"
  then show "\<exists>s1 s2. Sum_add s y = Inr s1 \<and> priv_result s1 = None
                  \<and> Sum_sub s y = Inr s2 \<and> priv_result s2 = None"
    by (simp add: Sum_add_def Sum_sub_def)
next
  assume a: "Sum_finish p l s f isChained log = Inr ((r, s'), log')
         \<or> Sum_finishForMulInput p l s f isChained log = Inr ((r, s'), log')"
  then show "priv_result s = None" "priv_result s' = Some r"
    using Sum_finish_sets_result Sum_finishForMulInput_sets_result by blast+
  then show "Sum_result s' = Inr r"
    by (simp add: Sum_result_def)
next
  assume "priv_result t \<noteq> None"
  then show "Sum_add t y = Inl (AssertionError ''sum already finished'')"
    "Sum_sub t y = Inl (AssertionError ''sum already finished'')"
    "Sum_finish p l t f isChained log = Inl (AssertionError ''sum already finished'')"
    "Sum_finishForMulInput p l t f isChained log = Inl (AssertionError ''sum already finished'')"
    "Sum_fromUnfinished (ASum t) = Inl (AssertionError ''sum already finished'')"
    by (auto simp: Sum_add_def Sum_sub_def Sum_finish_def Sum_finishForMulInput_def)
qed

theorem C7_sum_finalized_at_most_once_witness:
  "priv_result (Sum_new (Constant 1, Constant 0, Constant 0)) = None
   \<and> Sum_finish pallas_p 88 (Sum_new (Constant 1, Constant 0, Constant 0)) 7 False []
       = Inr (((Constant 1, Constant 0, Constant 0),
               \<lparr>priv_result = Some (Constant 1, Constant 0, Constant 0),
                priv_summands = [(Constant 1, Constant 0, Constant 0)], priv_ops = []\<rparr>), [])
   \<and> Sum_result (Sum_new (Constant 1, Constant 0, Constant 0))
       = Inl (AssertionError ''sum not finished'')
   \<and> Sum_result \<lparr>priv_result = Some (Constant 1, Constant 0, Constant 0),
                priv_summands = [(Constant 1, Constant 0, Constant 0)], priv_ops = []\<rparr>
       = Inr (Constant 1, Constant 0, Constant 0)
   \<and> Sum_add \<lparr>priv_result = Some (Constant 1, Constant 0, Constant 0),
                priv_summands = [(Constant 1, Constant 0, Constant 0)], priv_ops = []\<rparr>
         (Constant 2, Constant 0, Constant 0)
       = Inl (AssertionError ''sum already finished'')
   \<and> Sum_finish pallas_p 88 \<lparr>priv_result = Some (Constant 1, Constant 0, Constant 0),
                priv_summands = [(Constant 1, Constant 0, Constant 0)], priv_ops = []\<rparr> 7 False []
       = Inl (AssertionError ''sum already finished'')"
proof -
  let ?x = "(Constant 1, Constant 0, Constant 0)"
  let ?t = "\<lparr>priv_result = Some ?x, priv_summands = [?x], priv_ops = []\<rparr>"
  have fin: "Sum_finish pallas_p 88 (Sum_new ?x) 7 False [] = Inr ((?x, ?t), [])"
    by (simp add: Sum_finish_def Sum_new_def Sum_return_def)
  have bld: "priv_result (Sum_new ?x) = None"
    by (simp add: Sum_new_def)
  have finalized: "priv_result ?t \<noteq> None"
    by simp
  show ?thesis
    using C7_sum_finalized_at_most_once [where p = pallas_p and x = ?x and s = "Sum_new ?x" and t = ?t
        and y = "(Constant 2, Constant 0, Constant 0)" and l = 88 and f = 7
        and isChained = False and log = "[]" and r = ?x and s' = ?t and log' = "[]"]
      fin bld finalized
    by simp
qed

subsection \<open>Residues of the native field\<close>

lemma int_power_le: "2 ^ k \<le> p \<Longrightarrow> (2::int) ^ k \<le> int p"
  by (metis of_nat_le_iff of_nat_numeral of_nat_power)

lemma mod_native_id:
  assumes "0 \<le> v" and "v < 2 ^ k" and "(2::int) ^ k \<le> int p"
  shows "v mod int p = v"
proof -
  have "v < int p"
    using assms(2,3) by (rule less_le_trans)
  then show ?thesis
    using assms(1) by (intro mod_pos_pos_trivial)
qed

lemma toBigInt_mod [simp]: "toBigInt p x mod int p = toBigInt p x"
  by (cases x) simp_all

lemma toBigInt_exists1 [simp]: "toBigInt p (exists1 p v) = v mod int p"
  by (simp add: exists1_def)

lemma toBigInt_Field_from [simp]: "toBigInt p (Field_from p v) = v mod int p"
  by (simp add: Field_from_def)

lemma toBigInt_toVar [simp]: "toBigInt p (toVar p x) = toBigInt p x"
  by (simp add: toVar_def)

lemma isConstant_exists1 [simp]: "\<not> isConstant (exists1 p v)"
  by (simp add: exists1_def)

lemma isConstant_Field_from [simp]: "isConstant (Field_from p v)"
  by (simp add: Field_from_def)

lemma take_bit_mod_native:
  assumes "(2::int) ^ l \<le> int p"
  shows "take_bit l v mod int p = take_bit l (v::int)"
  using assms by (intro mod_native_id [of _ l]) simp_all

lemma high_limb_range:
  fixes r0 r1 r2 :: int
  assumes "0 \<le> r0" "r0 < 2 ^ l" "0 \<le> r1" "r1 < 2 ^ l"
    and "0 \<le> combine l (r0, r1, r2)" "combine l (r0, r1, r2) < 2 ^ l3 l"
  shows "0 \<le> r2 \<and> r2 < 2 ^ l"
proof -
  define A :: int where "A = 2 ^ l"
  have A: "0 < A"
    by (simp add: A_def)
  have sq: "(2::int) ^ l2 l = A * A"
    by (simp add: A_def l2_def mult_2 power_add)
  have c: "combine l (r0, r1, r2) = r0 + A * r1 + A * A * r2"
    by (simp add: push_bit_eq_mult sq) (simp add: A_def mult.commute)
  have top: "(2::int) ^ l3 l = A * A * A"
  proof -
    have "l3 l = l + l + l"
      by (simp add: l3_def)
    then show ?thesis
      by (simp add: A_def power_add)
  qed
  have low: "0 \<le> r0 + A * r1" "r0 + A * r1 < A * A"
  proof -
    show "0 \<le> r0 + A * r1"
      using assms(1,3) A by simp
    have "r1 \<le> A - 1"
      using assms(4) by (simp add: A_def)
    then have "A * r1 \<le> A * (A - 1)"
      using A by (intro mult_left_mono) auto
    then show "r0 + A * r1 < A * A"
      using assms(2) by (simp add: A_def algebra_simps)
  qed
  have "0 \<le> r2"
  proof (rule ccontr)
    assume "\<not> 0 \<le> r2"
    then have "r2 \<le> - 1"
      by simp
    then have "A * A * r2 \<le> A * A * (- 1)"
      using A by (intro mult_left_mono) auto
    then show False
      using assms(5) low(2) unfolding c by simp
  qed
  moreover have "r2 < A"
  proof (rule ccontr)
    assume "\<not> r2 < A"
    then have "A \<le> r2"
      by simp
    then have "A * A * A \<le> A * A * r2"
      using A by (intro mult_left_mono) auto
    then show False
      using assms(6) low(1) unfolding c top by simp
  qed
  ultimately show ?thesis
    by (simp add: A_def)
qed

subsection \<open>Addition\<close>

lemma combine_limbs: "combine l x = combine2_3 l x + push_bit (l2 l) (limb2 x)"
  by (cases x) simp

lemma combine2_split2_take_bit: "combine2 l (split2 l (take_bit (l2 l) x)) = take_bit (l2 l) x"
  by (simp add: combine2_split2)

lemma take_bit_drop_bit_ident: "take_bit n (x::int) + push_bit n (drop_bit n x) = x"
  using bits_ident [of n x] by simp

lemma singleAdd_witness_combine:
  assumes "singleAdd_witness l x y sign f = (r0, r1, r2, overflow, carry)"
  shows "combine l (r0, r1, r2)
           = combine l x + sign_val sign * combine l y - overflow * combine l (split l f)"
proof -
  define r01 where "r01 = combine2_3 l x + sign_val sign * combine2_3 l y - overflow * combine2_3 l (split l f)"
  have c: "carry = drop_bit (l2 l) r01"
    and r: "(r0, r1) = split2 l (take_bit (l2 l) r01)"
    and r2: "r2 = limb2 x + sign_val sign * limb2 y - overflow * limb2 (split l f) + carry"
    using assms unfolding singleAdd_witness_def r01_def Let_def and_l2Mask
    by (auto split: prod.splits)
  have "combine2 l (r0, r1) = take_bit (l2 l) r01"
    unfolding r by (rule combine2_split2_take_bit)
  then have "combine l (r0, r1, r2) = take_bit (l2 l) r01 + push_bit (l2 l) r2"
    by simp
  also have "\<dots> = (take_bit (l2 l) r01 + push_bit (l2 l) (drop_bit (l2 l) r01))
      + push_bit (l2 l) (limb2 x + sign_val sign * limb2 y - overflow * limb2 (split l f))"
    unfolding r2 c by (simp add: push_bit_eq_mult algebra_simps)
  also have "\<dots> = r01 + push_bit (l2 l) (limb2 x + sign_val sign * limb2 y - overflow * limb2 (split l f))"
    by (simp only: take_bit_drop_bit_ident)
  also have "\<dots> = combine l x + sign_val sign * combine l y - overflow * combine l (split l f)"
    unfolding r01_def combine_limbs [of l x] combine_limbs [of l y] combine_limbs [of l "split l f"]
    by (simp add: push_bit_eq_mult algebra_simps)
  finally show ?thesis .
qed

lemma singleAdd_witness_overflow:
  assumes "singleAdd_witness l x y sign f = (r0, r1, r2, overflow, carry)"
  shows "overflow = add_overflow f sign (combine l x + sign_val sign * combine l y)"
  using assms unfolding singleAdd_witness_def Let_def add_overflow_def
  by (cases sign) (auto split: prod.splits)

lemma singleAdd_witness_limbs:
  assumes "singleAdd_witness l x y sign f = (r0, r1, r2, overflow, carry)"
  shows "0 \<le> r0 \<and> r0 < 2 ^ l \<and> 0 \<le> r1 \<and> r1 < 2 ^ l"
  using assms unfolding singleAdd_witness_def Let_def split2_def and_lMask
  by (auto split: prod.splits)

lemma singleAdd_run:
  "\<exists>r0 r1 r2 ov g.
     singleAdd p l x y sign f log
       = Inr (((exists1 p r0, exists1 p r1, exists1 p r2), exists1 p ov), log @ [g])
   \<and> combine l (r0, r1, r2)
        = combine l (toBigint3 p x) + sign_val sign * combine l (toBigint3 p y) - ov * combine l (split l f)
   \<and> ov = add_overflow f sign (combine l (toBigint3 p x) + sign_val sign * combine l (toBigint3 p y))
   \<and> 0 \<le> r0 \<and> r0 < 2 ^ l \<and> 0 \<le> r1 \<and> r1 < 2 ^ l"
proof -
  obtain r0 r1 r2 ov c
    where w: "singleAdd_witness l (toBigint3 p x) (toBigint3 p y) sign f = (r0, r1, r2, ov, c)"
    by (metis prod_cases5)
  have "singleAdd p l x y sign f log
      = Inr (((exists1 p r0, exists1 p r1, exists1 p r2), exists1 p ov),
             log @ [ForeignFieldAdd x y (exists1 p ov) (exists1 p c) (split l f) sign])"
    by (simp add: singleAdd_def w)
  then show ?thesis
    using singleAdd_witness_combine [OF w] singleAdd_witness_overflow [OF w]
      singleAdd_witness_limbs [OF w] by blast
qed

lemma mod_by_shift:
  fixes v k f :: int
  assumes "0 \<le> v - k * f" and "v - k * f < f"
  shows "v mod f = v - k * f"
proof -
  have "v mod f = (v - k * f + k * f) mod f"
    by simp
  also have "\<dots> = (v - k * f) mod f"
    by (rule mod_mult_self1)
  also have "\<dots> = v - k * f"
    using assms by (rule mod_pos_pos_trivial)
  finally show ?thesis .
qed

lemma add_mod_overflow:
  fixes f a b :: int
  assumes "0 < f" "0 \<le> a" "a < f" "0 \<le> b" "b < f"
  shows "a + sign_val sign * b
          - add_overflow f sign (a + sign_val sign * b) * f
         = (a + sign_val sign * b) mod f"
proof (cases sign)
  case Plus
  show ?thesis
  proof (cases "f \<le> a + b")
    case True
    then have "(a + b) mod f = a + b - 1 * f"
      using assms by (intro mod_by_shift) auto
    then show ?thesis
      using True assms Plus by (simp add: add_overflow_def)
  next
    case False
    then have "(a + b) mod f = a + b - 0 * f"
      using assms by (intro mod_by_shift) auto
    then show ?thesis
      using False assms Plus by (simp add: add_overflow_def)
  qed
next
  case Minus
  show ?thesis
  proof (cases "a - b < 0")
    case True
    then have "(a - b) mod f = a - b - (- 1) * f"
      using assms by (intro mod_by_shift) auto
    then show ?thesis
      using True assms Minus by (simp add: add_overflow_def)
  next
    case False
    then have "(a - b) mod f = a - b - 0 * f"
      using assms by (intro mod_by_shift) auto
    then show ?thesis
      using False assms Minus by (simp add: add_overflow_def)
  qed
qed

lemma foldl_signed_terms:
  "foldl (\<lambda>sum (s, xi). sum + sign_val s * xi) a (zip sign xs)
     = a + (\<Sum>i<min (length sign) (length xs). sign_val (sign ! i) * xs ! i)"
proof (induction sign arbitrary: a xs)
  case Nil
  then show ?case by simp
next
  case (Cons s sign)
  show ?case
  proof (cases xs)
    case Nil
    then show ?thesis by simp
  next
    case (Cons x xs')
    then show ?thesis
      by (simp add: Cons.IH sum.lessThan_Suc_shift add.assoc del: sum.lessThan_Suc)
  qed
qed

lemma toBigint3_Field3_from:
  assumes "(2::int) ^ l \<le> int p"
  shows "toBigint3 p (Field3_from p l m) = split l m"
  by (simp add: Field3_from_def split_def and_lMask take_bit_mod_native [OF assms])

lemma Field3_toBigint_from:
  assumes "(2::int) ^ l \<le> int p"
  shows "Field3_toBigint p l (Field3_from p l m) = take_bit (l3 l) m"
  by (simp add: Field3_toBigint_def toBigint3_Field3_from [OF assms] combine_split)

lemma sum_ff_constant:
  assumes "list_all Field3_isConstant ts" and "length ts = length signs + 1" and "f \<noteq> 0"
  shows "sum_ff p l ts signs f log
     = Inr (Field3_from p l
              ((Field3_toBigint p l (ts ! 0)
                + (\<Sum>i<length signs. sign_val (signs ! i) * Field3_toBigint p l (ts ! (i + 1)))) mod f),
            log)"
proof -
  obtain t0 rest where ts: "ts = t0 # rest"
    using assms(2) by (cases ts) auto
  have len: "length rest = length signs"
    using assms(2) ts by simp
  have "(\<Sum>i<length signs. sign_val (signs ! i) * map (Field3_toBigint p l) rest ! i)
      = (\<Sum>i<length signs. sign_val (signs ! i) * Field3_toBigint p l (rest ! i))"
    using len by (intro sum.cong) auto
  then show ?thesis
    using assms(1,3) len
    by (simp add: sum_ff_def ts foldl_signed_terms mod_bigint_def Let_def)
qed

lemma bindM_run: "m log = Inr (x, log') \<Longrightarrow> bindM m k log = k x log'"
  by (simp add: bindM_def)

lemma bindM_assoc: "bindM (bindM m k) k' = bindM m (\<lambda>x. bindM (k x) k')"
  by (auto simp: bindM_def fun_eq_iff split: sum.splits)

lemma toBigint3_toVars [simp]: "toBigint3 p (toVars p x) = toBigint3 p x"
  by (cases x) simp

lemma toBigint3_exists1:
  assumes "(2::int) ^ l \<le> int p"
    and "0 \<le> r0" "r0 < 2 ^ l" "0 \<le> r1" "r1 < 2 ^ l" "0 \<le> r2" "r2 < 2 ^ l"
  shows "toBigint3 p (exists1 p r0, exists1 p r1, exists1 p r2) = (r0, r1, r2)"
  using assms by (simp add: mod_native_id [of _ l])

lemma sum_ff_pair_variable:
  assumes "\<not> (Field3_isConstant x \<and> Field3_isConstant y)"
  shows "\<exists>r0 r1 r2 ov g.
      sum_ff p l [x, y] [sign] f log
        = Inr ((exists1 p r0, exists1 p r1, exists1 p r2),
               log @ [g, Zero (exists1 p r0, exists1 p r1, exists1 p r2),
                      MultiRangeCheck (exists1 p r0, exists1 p r1, exists1 p r2)])
    \<and> combine l (r0, r1, r2)
        = combine l (toBigint3 p x) + sign_val sign * combine l (toBigint3 p y) - ov * combine l (split l f)
    \<and> ov = add_overflow f sign (combine l (toBigint3 p x) + sign_val sign * combine l (toBigint3 p y))
    \<and> 0 \<le> r0 \<and> r0 < 2 ^ l \<and> 0 \<le> r1 \<and> r1 < 2 ^ l"
proof -
  obtain r0 r1 r2 ov g where
    run: "singleAdd p l (toVars p x) (toVars p y) sign f log
            = Inr (((exists1 p r0, exists1 p r1, exists1 p r2), exists1 p ov), log @ [g])"
    and val: "combine l (r0, r1, r2)
        = combine l (toBigint3 p x) + sign_val sign * combine l (toBigint3 p y) - ov * combine l (split l f)"
    and ov: "ov = add_overflow f sign (combine l (toBigint3 p x) + sign_val sign * combine l (toBigint3 p y))"
    and lim: "0 \<le> r0 \<and> r0 < 2 ^ l \<and> 0 \<le> r1 \<and> r1 < 2 ^ l"
    using singleAdd_run [of p l "toVars p x" "toVars p y" sign f log] by auto
  have nc: "(Field3_isConstant x \<and> Field3_isConstant y) = False"
    using assms by simp
  have "sum_ff p l [x, y] [sign] f log
        = Inr ((exists1 p r0, exists1 p r1, exists1 p r2),
               log @ [g, Zero (exists1 p r0, exists1 p r1, exists1 p r2),
                      MultiRangeCheck (exists1 p r0, exists1 p r1, exists1 p r2)])"
    by (simp add: sum_ff_def nc bindM_assoc
          bindM_run [where m = "singleAdd p l (toVars p x) (toVars p y) sign f", OF run])
  then show ?thesis
    using val ov lim by blast
qed

text \<open>
  C5 (amended). For every modulus \<open>f\<close> with \<open>0 < f < 2^l3\<close>, all \<open>x\<close>, \<open>y\<close> that represent
  integers in \<open>[0, f)\<close> and every sign, \<open>sum([x, y], [sign], f)\<close> (which is what \<open>add\<close> and
  \<open>sub\<close> call) returns a limb triple that represents \<open>(x + sign * y) mod f\<close>, whether the
  terms are constants or variables; a limb has to fit in the native field (\<open>2^l \<le> p\<close>).
  When every term is constant and the lengths match, \<open>sum(terms, signs, f)\<close> returns the
  limbs of \<open>(t0 + \<Sum> sign_i * t_i) mod f\<close> (for any \<open>f > 0\<close>) and leaves the log unchanged.
\<close>

theorem C5_addition_chain_mod_f:
  "(0 < f \<and> f < 2 ^ l3 l \<and> 2 ^ l \<le> p
      \<and> 0 \<le> Field3_toBigint p l x \<and> Field3_toBigint p l x < f
      \<and> 0 \<le> Field3_toBigint p l y \<and> Field3_toBigint p l y < f \<longrightarrow>
      (\<exists>r log'. sum_ff p l [x, y] [sign] f log = Inr (r, log')
         \<and> Field3_toBigint p l r = (Field3_toBigint p l x + sign_val sign * Field3_toBigint p l y) mod f))
   \<and> ForeignField_add p l x y f = sum_ff p l [x, y] [Plus] f
   \<and> ForeignField_sub p l x y f = sum_ff p l [x, y] [Minus] f
   \<and> (0 < f \<and> list_all Field3_isConstant ts \<and> length ts = length signs + 1 \<longrightarrow>
        sum_ff p l ts signs f log
          = Inr (Field3_from p l
                  ((Field3_toBigint p l (ts ! 0)
                    + (\<Sum>i<length signs. sign_val (signs ! i) * Field3_toBigint p l (ts ! (i + 1)))) mod f),
                 log))"
proof (intro conjI impI)
  assume a: "0 < f \<and> f < 2 ^ l3 l \<and> 2 ^ l \<le> p
      \<and> 0 \<le> Field3_toBigint p l x \<and> Field3_toBigint p l x < f
      \<and> 0 \<le> Field3_toBigint p l y \<and> Field3_toBigint p l y < f"
  then have pl: "(2::int) ^ l \<le> int p"
    by (simp add: int_power_le)
  let ?v = "Field3_toBigint p l x + sign_val sign * Field3_toBigint p l y"
  have m: "0 \<le> ?v mod f" "?v mod f < 2 ^ l3 l"
    using a by (auto intro: less_trans [OF pos_mod_bound])
  show "\<exists>r log'. sum_ff p l [x, y] [sign] f log = Inr (r, log') \<and> Field3_toBigint p l r = ?v mod f"
  proof (cases "Field3_isConstant x \<and> Field3_isConstant y")
    case True
    then have "sum_ff p l [x, y] [sign] f log = Inr (Field3_from p l (?v mod f), log)"
      using a sum_ff_constant [of "[x, y]" "[sign]" f p l log] by simp
    moreover have "Field3_toBigint p l (Field3_from p l (?v mod f)) = ?v mod f"
      using m by (simp add: Field3_toBigint_from [OF pl] take_bit_int_eq_self)
    ultimately show ?thesis
      by blast
  next
    case False
    from sum_ff_pair_variable [OF False, of p l sign f log]
    obtain r0 r1 r2 ov log' where
      run: "sum_ff p l [x, y] [sign] f log = Inr ((exists1 p r0, exists1 p r1, exists1 p r2), log')"
      and val: "combine l (r0, r1, r2)
        = combine l (toBigint3 p x) + sign_val sign * combine l (toBigint3 p y) - ov * combine l (split l f)"
      and ov: "ov = add_overflow f sign (combine l (toBigint3 p x) + sign_val sign * combine l (toBigint3 p y))"
      and lim: "0 \<le> r0" "r0 < 2 ^ l" "0 \<le> r1" "r1 < 2 ^ l"
      by blast
    have "combine l (split l f) = f"
      using a by (intro combine_split_id) auto
    then have c: "combine l (r0, r1, r2) = ?v mod f"
      using val add_mod_overflow [of f "Field3_toBigint p l x" "Field3_toBigint p l y" sign] a
      unfolding ov Field3_toBigint_def by simp
    then have "0 \<le> r2 \<and> r2 < 2 ^ l"
      using m lim by (intro high_limb_range [of r0 l r1]) simp_all
    then have "toBigint3 p (exists1 p r0, exists1 p r1, exists1 p r2) = (r0, r1, r2)"
      using lim by (intro toBigint3_exists1 [OF pl]) simp_all
    then have "Field3_toBigint p l (exists1 p r0, exists1 p r1, exists1 p r2) = ?v mod f"
      using c by (simp add: Field3_toBigint_def)
    then show ?thesis
      using run by blast
  qed
next
  show "ForeignField_add p l x y f = sum_ff p l [x, y] [Plus] f"
    by (simp add: ForeignField_add_def)
  show "ForeignField_sub p l x y f = sum_ff p l [x, y] [Minus] f"
    by (simp add: ForeignField_sub_def)
next
  assume "0 < f \<and> list_all Field3_isConstant ts \<and> length ts = length signs + 1"
  then show "sum_ff p l ts signs f log
          = Inr (Field3_from p l
                  ((Field3_toBigint p l (ts ! 0)
                    + (\<Sum>i<length signs. sign_val (signs ! i) * Field3_toBigint p l (ts ! (i + 1)))) mod f),
                 log)"
    using sum_ff_constant [of ts signs f p l log] by simp
qed

theorem C5_addition_chain_mod_f_witness:
  "(0::int) < 2 ^ 256 - 2 ^ 32 - 977 \<and> (2 ^ 256 - 2 ^ 32 - 977 :: int) < 2 ^ l3 88
   \<and> 2 ^ 88 \<le> pallas_p
   \<and> 0 \<le> Field3_toBigint pallas_p 88 (Variable 0, Variable 0, Variable (2 ^ 79))
   \<and> Field3_toBigint pallas_p 88 (Variable 0, Variable 0, Variable (2 ^ 79)) < 2 ^ 256 - 2 ^ 32 - 977
   \<and> (\<exists>r log'. sum_ff pallas_p 88 [(Variable 0, Variable 0, Variable (2 ^ 79)),
                               (Variable 0, Variable 0, Variable (2 ^ 79))] [Plus]
                    (2 ^ 256 - 2 ^ 32 - 977) [] = Inr (r, log')
         \<and> Field3_toBigint pallas_p 88 r = 2 ^ 32 + 977)
   \<and> sum_ff pallas_p 88 [(Constant 5, Constant 0, Constant 0), (Constant 6, Constant 0, Constant 0),
                    (Constant 3, Constant 0, Constant 0)] [Minus, Plus] 7 []
       = Inr (Field3_from pallas_p 88 2, [])"
proof -
  let ?f = "2 ^ 256 - 2 ^ 32 - 977 :: int"
  let ?x = "(Variable 0, Variable 0, Variable (2 ^ 79))"
  let ?ts = "[(Constant 5, Constant 0, Constant 0), (Constant 6, Constant 0, Constant 0),
              (Constant 3, Constant 0, Constant 0)]"
  have p: "2 ^ 88 \<le> pallas_p"
    by (simp add: pallas_p_def)
  have x: "Field3_toBigint pallas_p 88 ?x = 2 ^ 255"
    by (simp add: Field3_toBigint_def l2_def push_bit_eq_mult pallas_p_def)
  have h: "0 < ?f \<and> ?f < 2 ^ l3 88 \<and> 2 ^ 88 \<le> pallas_p
           \<and> 0 \<le> Field3_toBigint pallas_p 88 ?x \<and> Field3_toBigint pallas_p 88 ?x < ?f
           \<and> 0 \<le> Field3_toBigint pallas_p 88 ?x \<and> Field3_toBigint pallas_p 88 ?x < ?f"
    unfolding x using p by (simp add: l3_def)
  have m: "(Field3_toBigint pallas_p 88 ?x + sign_val Plus * Field3_toBigint pallas_p 88 ?x) mod ?f
           = 2 ^ 32 + 977"
    unfolding x by simp
  have c: "(Field3_toBigint pallas_p 88 (?ts ! 0)
             + (\<Sum>i<length [Minus, Plus].
                   sign_val ([Minus, Plus] ! i) * Field3_toBigint pallas_p 88 (?ts ! (i + 1)))) mod 7
           = 2"
    by (simp add: Field3_toBigint_def l2_def lessThan_Suc pallas_p_def)
  have r1: "\<exists>r log'. sum_ff pallas_p 88 [?x, ?x] [Plus] ?f [] = Inr (r, log')
         \<and> Field3_toBigint pallas_p 88 r = 2 ^ 32 + 977"
    using C5_addition_chain_mod_f [where p = pallas_p and f = ?f and l = 88 and x = ?x and y = ?x
        and sign = Plus and log = "[]"] h
    unfolding m by blast
  have r2: "sum_ff pallas_p 88 ?ts [Minus, Plus] 7 [] = Inr (Field3_from pallas_p 88 2, [])"
    using C5_addition_chain_mod_f [where p = pallas_p and f = 7 and l = 88 and ts = ?ts
        and signs = "[Minus, Plus]" and log = "[]"]
    unfolding c by simp
  show ?thesis
    using h r1 r2 by blast
qed

text \<open>
  As stated, for every modulus \<open>f > 0\<close>, C5 fails: three limbs of 88 bits cannot represent a
  residue from \<open>2^264\<close> on. With \<open>f = 2^265\<close> and \<open>x = y = 2^264 - 1\<close> the result
  represents \<open>2^264 - 2\<close>, not \<open>(x + y) mod f = 2^265 - 2\<close>.
\<close>

theorem C5_any_positive_modulus_counterexample:
  "(0::int) < 2 ^ 265
   \<and> 0 \<le> Field3_toBigint pallas_p 88 (Constant (2 ^ 88 - 1), Constant (2 ^ 88 - 1), Constant (2 ^ 88 - 1))
   \<and> Field3_toBigint pallas_p 88 (Constant (2 ^ 88 - 1), Constant (2 ^ 88 - 1), Constant (2 ^ 88 - 1)) < 2 ^ 265
   \<and> sum_ff pallas_p 88 [(Constant (2 ^ 88 - 1), Constant (2 ^ 88 - 1), Constant (2 ^ 88 - 1)),
                    (Constant (2 ^ 88 - 1), Constant (2 ^ 88 - 1), Constant (2 ^ 88 - 1))] [Plus] (2 ^ 265) []
       = Inr ((Constant (2 ^ 88 - 2), Constant (2 ^ 88 - 1), Constant (2 ^ 88 - 1)), [])
   \<and> Field3_toBigint pallas_p 88 (Constant (2 ^ 88 - 2), Constant (2 ^ 88 - 1), Constant (2 ^ 88 - 1))
       \<noteq> (Field3_toBigint pallas_p 88 (Constant (2 ^ 88 - 1), Constant (2 ^ 88 - 1), Constant (2 ^ 88 - 1))
          + sign_val Plus * Field3_toBigint pallas_p 88 (Constant (2 ^ 88 - 1), Constant (2 ^ 88 - 1), Constant (2 ^ 88 - 1)))
         mod 2 ^ 265"
proof -
  let ?x = "(Constant (2 ^ 88 - 1), Constant (2 ^ 88 - 1), Constant (2 ^ 88 - 1))"
  have x: "Field3_toBigint pallas_p 88 ?x = 2 ^ 264 - 1"
    by (simp add: Field3_toBigint_def l2_def push_bit_eq_mult pallas_p_def)
  have r: "Field3_toBigint pallas_p 88 (Constant (2 ^ 88 - 2), Constant (2 ^ 88 - 1), Constant (2 ^ 88 - 1))
      = 2 ^ 264 - 2"
    by (simp add: Field3_toBigint_def l2_def push_bit_eq_mult pallas_p_def)
  have "sum_ff pallas_p 88 [?x, ?x] [Plus] (2 ^ 265) []
       = Inr ((Constant (2 ^ 88 - 2), Constant (2 ^ 88 - 1), Constant (2 ^ 88 - 1)), [])"
    by (simp add: sum_ff_def mod_bigint_def Field3_from_def Field_from_def Field3_toBigint_def
          split_def and_lMask l2_def push_bit_eq_mult take_bit_eq_mod drop_bit_eq_div pallas_p_def)
  then show ?thesis
    unfolding x r by simp
qed

subsection \<open>Multiplication\<close>

lemma sdiv_nonneg: "0 \<le> a \<Longrightarrow> 0 < f \<Longrightarrow> a sdiv f = a div (f::int)"
  by (cases "a = 0") (simp_all add: signed_divide_int_def)

lemma split_limbs:
  "split l r = (take_bit l r, take_bit l (drop_bit l r), take_bit l (drop_bit (l2 l) r))"
  by (simp add: split_def and_lMask)

lemma multiply_witness_remainder:
  assumes "f \<noteq> 0"
  shows "\<exists>q0 q1 q2 q2Bound p10 p110 p111 c0 c1p c1c.
     multiply_witness l a b f nf f2Bound
       = Inr (take_bit (l2 l) (combine l a * combine l b - (combine l a * combine l b) sdiv f * f),
              take_bit l (drop_bit (l2 l) (combine l a * combine l b - (combine l a * combine l b) sdiv f * f)),
              q0, q1, q2, q2Bound, p10, p110, p111, c0, c1p, c1c)"
proof -
  obtain a0 a1 a2 b0 b1 b2 f_0 f_1 f_2 where abf: "a = (a0, a1, a2)" "b = (b0, b1, b2)" "nf = (f_0, f_1, f_2)"
    by (metis prod_cases3)
  let ?r = "combine l a * combine l b - (combine l a * combine l b) sdiv f * f"
  have c2: "combine2 l (take_bit l ?r, take_bit l (drop_bit l ?r)) = take_bit (l2 l) ?r"
    using combine2_split2 [of l ?r] by (simp add: split2_def and_lMask)
  show ?thesis
    using assms c2
    unfolding multiply_witness_def abf div_bigint_def split_limbs Let_def
    by (simp del: combine.simps combine2.simps)
qed

lemma multiplyNoRangeCheck_run:
  assumes "f \<noteq> 0"
  shows "\<exists>q0 q1 q2 g1 g2.
     multiplyNoRangeCheck p l a b f log
       = Inr ((exists1 p (take_bit (l2 l) (mul_remainder p l a b f)),
               exists1 p (take_bit l (drop_bit (l2 l) (mul_remainder p l a b f))),
               (exists1 p q0, exists1 p q1, exists1 p q2)),
              log @ [g1, g2])"
proof -
  obtain f_0 f_1 f_2 where nf: "split l (push_bit (l3 l) 1 - f) = (f_0, f_1, f_2)"
    by (metis prod_cases3)
  obtain q0 q1 q2 q2Bound p10 p110 p111 c0 c1p c1c where
    w: "multiply_witness l (toBigint3 p a) (toBigint3 p b) f (f_0, f_1, f_2)
          (push_bit l 1 - drop_bit (l2 l) f - 1)
       = Inr (take_bit (l2 l) (mul_remainder p l a b f),
              take_bit l (drop_bit (l2 l) (mul_remainder p l a b f)),
              q0, q1, q2, q2Bound, p10, p110, p111, c0, c1p, c1c)"
    using multiply_witness_remainder [OF assms, where l = l and a = "toBigint3 p a" and b = "toBigint3 p b"
        and nf = "(f_0, f_1, f_2)" and ?f2Bound = "push_bit l 1 - drop_bit (l2 l) f - 1"]
    unfolding mul_remainder_def Field3_toBigint_def by blast
  show ?thesis
    unfolding multiplyNoRangeCheck_def Let_def nf prod.case w
    by (simp del: ex_simps) blast
qed

lemma mul_remainder_mod:
  assumes "0 < f" and "0 \<le> Field3_toBigint p l a * Field3_toBigint p l b"
  shows "mul_remainder p l a b f = (Field3_toBigint p l a * Field3_toBigint p l b) mod f"
  using assms by (simp add: mul_remainder_def sdiv_nonneg minus_div_mult_eq_mod)

lemma compact_limbs:
  "combine l (case split2 l (take_bit (l2 l) r) of (x, y) \<Rightarrow> (x, y, take_bit l (drop_bit (l2 l) r)))
     = take_bit (l3 l) r"
proof -
  have "combine2 l (split2 l (take_bit (l2 l) r)) = take_bit (l2 l) r"
    by (simp add: combine2_split2)
  moreover have "take_bit (l2 l + l) r = take_bit (l2 l) r + push_bit (l2 l) (take_bit l (drop_bit (l2 l) r))"
    by (rule take_bit_add_limbs)
  moreover have "l2 l + l = l3 l"
    by (simp add: l2_def l3_def)
  ultimately show ?thesis
    by (cases "split2 l (take_bit (l2 l) r)") simp
qed

lemma multiply_variable:
  assumes "f \<noteq> 0" and "f < 2 ^ 259" and "\<not> (Field3_isConstant a \<and> Field3_isConstant b)"
    and "(2::int) ^ l2 l \<le> int p"
  shows "\<exists>r log'. multiply p l a b f log = Inr (r, log')
           \<and> Field3_toBigint p l r = take_bit (l3 l) (mul_remainder p l a b f)"
proof -
  let ?r = "mul_remainder p l a b f"
  have pl: "(2::int) ^ l \<le> int p"
  proof -
    have "(2::int) ^ l \<le> 2 ^ l2 l"
      by (intro power_increasing) (simp_all add: l2_def)
    then show ?thesis
      using assms(4) by (rule order_trans)
  qed
  obtain q0 q1 q2 g1 g2 where
    run: "multiplyNoRangeCheck p l a b f log
       = Inr ((exists1 p (take_bit (l2 l) ?r),
               exists1 p (take_bit l (drop_bit (l2 l) ?r)),
               (exists1 p q0, exists1 p q1, exists1 p q2)),
              log @ [g1, g2])"
    using multiplyNoRangeCheck_run [OF assms(1)] by blast
  have nc: "(Field3_isConstant a \<and> Field3_isConstant b) = False"
    using assms(3) by simp
  obtain x y where xy: "split2 l (take_bit (l2 l) ?r) = (x, y)"
    by (cases "split2 l (take_bit (l2 l) ?r)")
  then have lim: "x = take_bit l x" "y = take_bit l y"
    by (auto simp: split2_def and_lMask)
  have rd: "take_bit (l2 l) ?r mod int p = take_bit (l2 l) ?r"
    by (rule take_bit_mod_native [OF assms(4)])
  have "multiply p l a b f log
      = Inr ((exists1 p x, exists1 p y, exists1 p (take_bit l (drop_bit (l2 l) ?r))),
             log @ [g1, g2, MultiRangeCheck (exists1 p q0, exists1 p q1, exists1 p q2),
                    CompactMultiRangeCheck (exists1 p (take_bit (l2 l) ?r))
                      (exists1 p (take_bit l (drop_bit (l2 l) ?r)))])"
    using assms(2)
    by (simp add: multiply_def nc push_bit_eq_mult compactMultiRangeCheck_def rd xy bindM_assoc
          bindM_run [where m = "multiplyNoRangeCheck p l a b f", OF run])
  moreover have "toBigint3 p (exists1 p x, exists1 p y, exists1 p (take_bit l (drop_bit (l2 l) ?r)))
      = (x, y, take_bit l (drop_bit (l2 l) ?r))"
    using take_bit_mod_native [OF pl, of x] take_bit_mod_native [OF pl, of y]
      take_bit_mod_native [OF pl, of "drop_bit (l2 l) ?r"] lim
    by simp
  moreover have "combine l (x, y, take_bit l (drop_bit (l2 l) ?r)) = take_bit (l3 l) ?r"
    using compact_limbs [of l ?r] by (simp add: xy)
  ultimately show ?thesis
    by (simp add: Field3_toBigint_def)
qed

lemma multiply_constant:
  assumes "f \<noteq> 0" and "f < 2 ^ 259" and "Field3_isConstant a \<and> Field3_isConstant b"
  shows "multiply p l a b f log
     = Inr (Field3_from p l ((Field3_toBigint p l a * Field3_toBigint p l b) mod f), log)"
  using assms by (simp add: multiply_def push_bit_eq_mult mod_bigint_def)

text \<open>
  C1. For every modulus \<open>f\<close> with \<open>0 < f < 2^259\<close> and all operands \<open>x\<close>, \<open>y\<close> that
  represent integers in \<open>[0, f)\<close>, \<open>multiply(x, y, f)\<close> returns a limb triple that represents
  \<open>(x * y) mod f\<close>; when both operands are constant the result is the limb split of the
  directly computed residue and no row is emitted. The limb width and the native modulus
  are parameters here: three limbs have to hold 259 bits, and the combined low and middle
  limb has to fit in the native field (\<open>2^l2 \<le> p\<close>).
\<close>

theorem C1_multiply_mod_f:
  "0 < f \<and> f < 2 ^ 259 \<and> 259 \<le> l3 l \<and> 2 ^ l2 l \<le> p
     \<and> 0 \<le> Field3_toBigint p l x \<and> Field3_toBigint p l x < f
     \<and> 0 \<le> Field3_toBigint p l y \<and> Field3_toBigint p l y < f \<longrightarrow>
   (\<exists>r log'. multiply p l x y f log = Inr (r, log')
      \<and> Field3_toBigint p l r = (Field3_toBigint p l x * Field3_toBigint p l y) mod f
      \<and> (Field3_isConstant x \<and> Field3_isConstant y \<longrightarrow>
           r = Field3_from p l ((Field3_toBigint p l x * Field3_toBigint p l y) mod f) \<and> log' = log))"
proof
  assume a: "0 < f \<and> f < 2 ^ 259 \<and> 259 \<le> l3 l \<and> 2 ^ l2 l \<le> p
     \<and> 0 \<le> Field3_toBigint p l x \<and> Field3_toBigint p l x < f
     \<and> 0 \<le> Field3_toBigint p l y \<and> Field3_toBigint p l y < f"
  then have pl2: "(2::int) ^ l2 l \<le> int p"
    by (simp add: int_power_le)
  have "(2::int) ^ l \<le> 2 ^ l2 l"
    by (intro power_increasing) (simp_all add: l2_def)
  then have pl: "(2::int) ^ l \<le> int p"
    using pl2 by (rule order_trans)
  let ?m = "(Field3_toBigint p l x * Field3_toBigint p l y) mod f"
  have "(2::int) ^ 259 \<le> 2 ^ l3 l"
    using a by (intro power_increasing) auto
  then have m: "0 \<le> ?m" "?m < 2 ^ l3 l"
    using a by (auto intro: less_le_trans [OF less_trans [OF pos_mod_bound]])
  then have tb: "take_bit (l3 l) ?m = ?m"
    by (simp add: take_bit_int_eq_self)
  show "\<exists>r log'. multiply p l x y f log = Inr (r, log')
      \<and> Field3_toBigint p l r = ?m
      \<and> (Field3_isConstant x \<and> Field3_isConstant y \<longrightarrow> r = Field3_from p l ?m \<and> log' = log)"
  proof (cases "Field3_isConstant x \<and> Field3_isConstant y")
    case True
    then have "multiply p l x y f log = Inr (Field3_from p l ?m, log)"
      using a by (intro multiply_constant) auto
    then show ?thesis
      by (simp add: Field3_toBigint_from [OF pl] tb)
  next
    case False
    have "mul_remainder p l x y f = ?m"
      using a by (intro mul_remainder_mod) auto
    then show ?thesis
      using multiply_variable [of f x y l p log] a False pl2 by (auto simp: tb)
  qed
qed

theorem C1_multiply_mod_f_witness:
  "(0::int) < 2 ^ 259 - 1 \<and> (2 ^ 259 - 1 :: int) < 2 ^ 259 \<and> 259 \<le> l3 88 \<and> 2 ^ l2 88 \<le> pallas_p
   \<and> Field3_toBigint pallas_p 88 (Variable (2 ^ 88 - 2), Variable (2 ^ 88 - 1), Variable (2 ^ 83 - 1))
       = 2 ^ 259 - 2
   \<and> Field3_toBigint pallas_p 88 (Variable 2, Variable 0, Variable 0) = 2
   \<and> (\<exists>r log'. multiply pallas_p 88 (Variable (2 ^ 88 - 2), Variable (2 ^ 88 - 1), Variable (2 ^ 83 - 1))
                   (Variable 2, Variable 0, Variable 0) (2 ^ 259 - 1) [] = Inr (r, log')
         \<and> Field3_toBigint pallas_p 88 r = 2 ^ 259 - 3)
   \<and> Field3_toBigint pallas_p 88 (Constant (2 ^ 88 - 1), Constant (2 ^ 88 - 1), Constant (2 ^ 79 - 1))
       = 2 ^ 255 - 1
   \<and> Field3_toBigint pallas_p 88 (Constant 7, Constant 0, Constant 0) = 7
   \<and> (\<exists>r log'. multiply pallas_p 88 (Constant (2 ^ 88 - 1), Constant (2 ^ 88 - 1), Constant (2 ^ 79 - 1))
                   (Constant 7, Constant 0, Constant 0) (2 ^ 256 - 2 ^ 32 - 977) [] = Inr (r, log')
         \<and> Field3_toBigint pallas_p 88 r = ((2 ^ 255 - 1) * 7) mod (2 ^ 256 - 2 ^ 32 - 977)
         \<and> log' = [])"
proof -
  let ?x = "(Variable (2 ^ 88 - 2), Variable (2 ^ 88 - 1), Variable (2 ^ 83 - 1))"
  let ?y = "(Variable 2, Variable 0, Variable 0)"
  let ?u = "(Constant (2 ^ 88 - 1), Constant (2 ^ 88 - 1), Constant (2 ^ 79 - 1))"
  let ?v = "(Constant 7, Constant 0, Constant 0)"
  have x: "Field3_toBigint pallas_p 88 ?x = 2 ^ 259 - 2"
    and y: "Field3_toBigint pallas_p 88 ?y = 2"
    and u: "Field3_toBigint pallas_p 88 ?u = 2 ^ 255 - 1"
    and v: "Field3_toBigint pallas_p 88 ?v = 7"
    by (simp_all add: Field3_toBigint_def l2_def push_bit_eq_mult pallas_p_def)
  have l: "259 \<le> l3 88" "2 ^ l2 88 \<le> pallas_p"
    by (simp_all add: l3_def l2_def pallas_p_def)
  show ?thesis
    using C1_multiply_mod_f [where p = pallas_p and f = "2 ^ 259 - 1" and l = 88 and x = ?x and y = ?y
        and log = "[]"]
      C1_multiply_mod_f [where p = pallas_p and f = "2 ^ 256 - 2 ^ 32 - 977" and l = 88 and x = ?u
        and y = ?v and log = "[]"]
      l
    unfolding x y u v by auto
qed

subsection \<open>The two finalization modes\<close>

lemma outcome_simps [simp]: "outcome (Inl e) = Inl e" "outcome (Inr (x, log)) = Inr x"
  by (simp_all add: outcome_def)

lemma singleAdd_apply:
  "\<exists>r0 r1 r2 ov g. \<forall>log.
     singleAdd p l x y sign f log = Inr (((exists1 p r0, exists1 p r1, exists1 p r2), exists1 p ov), log @ [g])"
proof -
  obtain r0 r1 r2 ov c
    where w: "singleAdd_witness l (toBigint3 p x) (toBigint3 p y) sign f = (r0, r1, r2, ov, c)"
    by (metis prod_cases5)
  have "\<forall>log. singleAdd p l x y sign f log
      = Inr (((exists1 p r0, exists1 p r1, exists1 p r2), exists1 p ov),
             log @ [ForeignFieldAdd x y (exists1 p ov) (exists1 p c) (split l f) sign])"
    by (simp add: singleAdd_def w)
  then show ?thesis
    by blast
qed

lemma addChain_short:
  "length xs < length signs \<Longrightarrow> addChain p l f x signs xs log = Inl TypeError"
proof (induction signs arbitrary: x xs log)
  case Nil
  then show ?case by simp
next
  case (Cons s signs)
  show ?case
  proof (cases xs)
    case Nil
    then show ?thesis by simp
  next
    case (Cons xi xs')
    obtain r ov g where "\<forall>log. singleAdd p l x xi s f log = Inr ((r, ov), log @ [g])"
      using singleAdd_apply [of p l x xi s f] by blast
    then show ?thesis
      using Cons.prems Cons.IH [of xs' r] Cons by (simp add: bindM_def)
  qed
qed

lemma addChain_variables:
  "signs \<noteq> [] \<Longrightarrow> addChain p l f x signs xs log = Inr (r, log')
     \<Longrightarrow> \<exists>r0 r1 r2. r = (exists1 p r0, exists1 p r1, exists1 p r2)"
proof (induction signs arbitrary: x xs log)
  case Nil
  then show ?case by simp
next
  case (Cons s signs)
  show ?case
  proof (cases xs)
    case Nil
    then show ?thesis using Cons.prems by simp
  next
    case (Cons xi xs')
    obtain r0 r1 r2 ov g where
      sa: "\<forall>log. singleAdd p l x xi s f log = Inr (((exists1 p r0, exists1 p r1, exists1 p r2), exists1 p ov), log @ [g])"
      using singleAdd_apply [of p l x xi s f] by blast
    then have run: "addChain p l f (exists1 p r0, exists1 p r1, exists1 p r2) signs xs' (log @ [g]) = Inr (r, log')"
      using Cons.prems Cons by (simp add: bindM_def)
    show ?thesis
    proof (cases signs)
      case Nil
      then show ?thesis using run by auto
    next
      case (Cons s' signs')
      then show ?thesis
        using Cons.IH [OF _ run] by simp
    qed
  qed
qed

lemma lowLimbs_short:
  "length xs < length signs \<Longrightarrow> lowLimbs p l f f0 x0 xRef x0s overflows signs xs log = Inl TypeError"
proof (induction signs arbitrary: x0 xRef x0s overflows xs log)
  case Nil
  then show ?case by simp
next
  case (Cons s signs)
  show ?case
  proof (cases xs)
    case Nil
    then show ?thesis by simp
  next
    case (Cons xi xs')
    then show ?thesis
      using Cons.prems Cons.IH [of xs']
      by (simp add: Let_def assertOneOf_def split: prod.splits)
  qed
qed

lemma lowLimbs_run:
  "length signs \<le> length xs \<Longrightarrow>
   \<exists>x0s' overflows' log'.
     lowLimbs p l f f0 x0 xRef x0s overflows signs xs log = Inr ((x0s', overflows'), log')
     \<and> length x0s' = length x0s + length signs
     \<and> length overflows' = length overflows + length signs"
proof (induction signs arbitrary: x0 xRef x0s overflows xs log)
  case Nil
  then show ?case by simp
next
  case (Cons s signs)
  then obtain xi xs' where xs: "xs = xi # xs'"
    by (cases xs) auto
  obtain c ov xr where w: "lowLimb_witness l f f0 xRef (toBigint3 p xi) s = ((c, ov), xr)"
    by (metis prod.exhaust)
  define x0' where "x0' = toVar p
     (Field_sub p
        (Field_sub p (Field_add p x0 (Field_mul p (limb0 xi) (Field_from p (sign_val s))))
                   (Field_mul p (exists1 p ov) (Field_from p f0)))
        (Field_mul p (exists1 p c) (Field_from p (push_bit l 1))))"
  have "length signs \<le> length xs'"
    using Cons.prems xs by simp
  from Cons.IH [OF this, of x0' xr "x0s @ [x0']" "overflows @ [exists1 p ov]"
      "log @ [AssertOneOf (exists1 p c) [0, 1, - 1]]"]
  obtain x0s' overflows' log' where
    "lowLimbs p l f f0 x0' xr (x0s @ [x0']) (overflows @ [exists1 p ov]) signs xs'
       (log @ [AssertOneOf (exists1 p c) [0, 1, - 1]]) = Inr ((x0s', overflows'), log')"
    "length x0s' = length (x0s @ [x0']) + length signs"
    "length overflows' = length (overflows @ [exists1 p ov]) + length signs"
    by blast
  then show ?case
    by (simp add: xs w assertOneOf_def Let_def x0'_def)
qed

lemma mulInputChain_addChain:
  "length signs \<le> length x0s \<Longrightarrow> length signs \<le> length overflows \<Longrightarrow>
     outcome (mulInputChain p l f x signs xs x0s overflows log) = outcome (addChain p l f x signs xs log')"
proof (induction signs arbitrary: x xs x0s overflows log log')
  case Nil
  then show ?case by simp
next
  case (Cons s signs)
  show ?case
  proof (cases xs)
    case Nil
    then show ?thesis by simp
  next
    case xs: (Cons xi xs')
    obtain x0i x0s' where x0s: "x0s = x0i # x0s'"
      using Cons.prems(1) by (cases x0s) auto
    obtain oi overflows' where ovs: "overflows = oi # overflows'"
      using Cons.prems(2) by (cases overflows) auto
    obtain r0 r1 r2 ov g where
      sa: "\<forall>log. singleAdd p l x xi s f log = Inr (((exists1 p r0, exists1 p r1, exists1 p r2), exists1 p ov), log @ [g])"
      using singleAdd_apply [of p l x xi s f] by blast
    have "outcome (mulInputChain p l f (exists1 p r0, exists1 p r1, exists1 p r2) signs xs' x0s' overflows'
             (log @ [g, AssertEquals (exists1 p r0) x0i, AssertEquals (exists1 p ov) oi]))
        = outcome (addChain p l f (exists1 p r0, exists1 p r1, exists1 p r2) signs xs' (log' @ [g]))"
      using Cons.prems by (intro Cons.IH) (simp_all add: x0s ovs)
    then show ?thesis
      using sa by (simp add: xs x0s ovs bindM_def Field_assertEquals_def emit_def)
  qed
qed

lemma mod_native_le:
  assumes "0 \<le> t"
  shows "0 \<le> t mod int p \<and> t mod int p \<le> t"
proof (cases "p = 0")
  case True
  then show ?thesis
    using assms by simp
next
  case False
  then show ?thesis
    using assms by (simp add: zmod_le_nonneg_dividend)
qed

lemma inRange_take_bit: "inRange p l (Field_from p (take_bit l x))"
proof -
  have "0 \<le> take_bit l x mod int p" "take_bit l x mod int p \<le> take_bit l x"
    using mod_native_le [of "take_bit l x" p] by simp_all
  moreover have "take_bit l x < 2 ^ l"
    by simp
  ultimately have "0 \<le> take_bit l x mod int p \<and> take_bit l x mod int p < 2 ^ l"
    by (meson le_less_trans)
  then show ?thesis
    by (simp add: inRange_def)
qed

lemma multiRangeCheck_Field3_from: "multiRangeCheck p l (Field3_from p l m) log = Inr ((), log)"
  by (simp add: Field3_from_def split_limbs inRange_take_bit)

lemma sum_ff_constant_outcome:
  assumes "list_all Field3_isConstant x"
  shows "(\<exists>e. sum_ff p l x sign f log = Inl e \<and> sum_ff p l x sign f log' = Inl e)
       \<or> (\<exists>m. sum_ff p l x sign f log = Inr (Field3_from p l m, log)
              \<and> sum_ff p l x sign f log' = Inr (Field3_from p l m, log'))"
  using assms
  by (cases "length x = length sign + 1"; cases "f = 0")
     (auto simp: sum_ff_def mod_bigint_def Let_def)

lemma outcome_Sum_finish_constant:
  assumes "priv_result s = None" and "priv_ops s \<noteq> []" and "Sum_isConstant s"
  shows "outcome (Sum_finishForMulInput p l s f isChained log)
       = outcome (finish_then_rangeCheck p l s f isChained log')"
proof -
  from sum_ff_constant_outcome [of "priv_summands s" p l "priv_ops s" f log log']
  consider e where "sum_ff p l (priv_summands s) (priv_ops s) f log = Inl e"
      "sum_ff p l (priv_summands s) (priv_ops s) f log' = Inl e"
    | m where "sum_ff p l (priv_summands s) (priv_ops s) f log = Inr (Field3_from p l m, log)"
      "sum_ff p l (priv_summands s) (priv_ops s) f log' = Inr (Field3_from p l m, log')"
    using assms(3) unfolding Sum_isConstant_def by blast
  then show ?thesis
  proof cases
    case 1
    then show ?thesis
      using assms
      by (simp add: Sum_finishForMulInput_def finish_then_rangeCheck_def Sum_finish_def bindM_def)
  next
    case 2
    then show ?thesis
      using assms
      by (simp add: Sum_finishForMulInput_def finish_then_rangeCheck_def Sum_finish_def bindM_def
            Sum_return_def Sum_rangeCheck_def multiRangeCheck_Field3_from)
  qed
qed

lemma outcome_Sum_finish_variable:
  assumes "priv_result s = None" and "priv_ops s \<noteq> []" and "\<not> Sum_isConstant s"
  shows "outcome (Sum_finishForMulInput p l s f isChained log)
       = outcome (finish_then_rangeCheck p l s f isChained log')"
proof -
  let ?xs = "map (toVars p) (priv_summands s)"
  let ?signs = "priv_ops s"
  show ?thesis
  proof (cases "length (tl ?xs) < length ?signs")
    case True
    then show ?thesis
      using assms
      by (simp add: Sum_finishForMulInput_def finish_then_rangeCheck_def Sum_finish_def Let_def
            bindM_def lowLimbs_short addChain_short)
  next
    case False
    then obtain x0s overflows log1 where
      low: "lowLimbs p l f (f AND lMask l) (limb0 (hd ?xs)) (Field3_toBigint p l (hd ?xs)) [] [] ?signs (tl ?xs) log
             = Inr ((x0s, overflows), log1)"
      and len: "length x0s = length ?signs" "length overflows = length ?signs"
      using lowLimbs_run [of ?signs "tl ?xs" p l f "f AND lMask l" "limb0 (hd ?xs)"
          "Field3_toBigint p l (hd ?xs)" "[]" "[]" log]
      by auto
    have eq: "outcome (mulInputChain p l f (hd ?xs) ?signs (tl ?xs) x0s overflows log1)
            = outcome (addChain p l f (hd ?xs) ?signs (tl ?xs) log')"
      using len by (intro mulInputChain_addChain) simp_all
    show ?thesis
    proof (cases "addChain p l f (hd ?xs) ?signs (tl ?xs) log'")
      case (Inl e)
      then have "mulInputChain p l f (hd ?xs) ?signs (tl ?xs) x0s overflows log1 = Inl e"
        using eq by (cases "mulInputChain p l f (hd ?xs) ?signs (tl ?xs) x0s overflows log1") auto
      then show ?thesis
        using assms Inl
        by (simp add: Sum_finishForMulInput_def finish_then_rangeCheck_def Sum_finish_def Let_def
              bindM_def low)
    next
      case (Inr pr)
      obtain r log2 where p: "pr = (r, log2)"
        by (cases pr)
      obtain r0 r1 r2 where r: "r = (exists1 p r0, exists1 p r1, exists1 p r2)"
        using addChain_variables [OF assms(2)] Inr p by blast
      obtain log3 where "mulInputChain p l f (hd ?xs) ?signs (tl ?xs) x0s overflows log1 = Inr (r, log3)"
        using eq Inr p by (cases "mulInputChain p l f (hd ?xs) ?signs (tl ?xs) x0s overflows log1") auto
      then show ?thesis
        using assms Inr p r
        by (simp add: Sum_finishForMulInput_def finish_then_rangeCheck_def Sum_finish_def Let_def
              bindM_def low Sum_rangeCheck_def emit_def)
    qed
  qed
qed

text \<open>
  C2. For every Sum (any terms, signs and values), every modulus \<open>f\<close> and either value of
  \<open>isChained\<close>, \<open>finishForMulInput(f)\<close> returns what \<open>finish(f)\<close> followed by an explicit
  range check returns: the same limb triple and the same finalized Sum, or the same error.
  The two modes differ only in the rows that they append to the log.
\<close>

theorem C2_finishForMulInput_same_value:
  "outcome (Sum_finishForMulInput p l s f isChained log)
     = outcome (finish_then_rangeCheck p l s f isChained log')"
proof (cases "priv_result s = None")
  case False
  then show ?thesis
    by (auto simp: Sum_finishForMulInput_def finish_then_rangeCheck_def Sum_finish_def)
next
  case building: True
  show ?thesis
  proof (cases "priv_ops s = []")
    case True
    then show ?thesis
      using building
      by (cases "priv_summands s")
         (simp_all add: Sum_finishForMulInput_def finish_then_rangeCheck_def Sum_finish_def
            Sum_return_def Sum_rangeCheck_def bindM_def)
  next
    case False
    then show ?thesis
      using building outcome_Sum_finish_constant outcome_Sum_finish_variable by blast
  qed
qed

theorem C2_finishForMulInput_same_value_witness:
  "outcome (Sum_finishForMulInput pallas_p 88
      \<lparr>priv_result = None,
       priv_summands = [(Variable 5, Variable 0, Variable 0), (Constant 4, Constant 0, Constant 0),
                        (Variable 6, Variable 0, Variable 0)],
       priv_ops = [Plus, Minus]\<rparr> 7 False [])
   = Inr ((Variable 3, Variable 0, Variable 0),
      \<lparr>priv_result = Some (Variable 3, Variable 0, Variable 0),
       priv_summands = [(Variable 5, Variable 0, Variable 0), (Constant 4, Constant 0, Constant 0),
                        (Variable 6, Variable 0, Variable 0)],
       priv_ops = [Plus, Minus]\<rparr>)"
proof -
  let ?s = "\<lparr>priv_result = None,
       priv_summands = [(Variable 5, Variable 0, Variable 0), (Constant 4, Constant 0, Constant 0),
                        (Variable 6, Variable 0, Variable 0)],
       priv_ops = [Plus, Minus]\<rparr>"
  have w1: "singleAdd_witness 88 (5, 0, 0) (4, 0, 0) Plus 7 = (2, 0, 0, 1, 0)"
    by (simp add: singleAdd_witness_def split_def split2_def and_lMask and_l2Mask l2_def
          take_bit_eq_mod drop_bit_eq_div push_bit_eq_mult)
  have w2: "singleAdd_witness 88 (2, 0, 0) (6, 0, 0) Minus 7 = (3, 0, 0, - 1, 0)"
    by (simp add: singleAdd_witness_def split_def split2_def and_lMask and_l2Mask l2_def
          take_bit_eq_mod drop_bit_eq_div push_bit_eq_mult)
  have "outcome (finish_then_rangeCheck pallas_p 88 ?s 7 False [])
      = Inr ((Variable 3, Variable 0, Variable 0), ?s\<lparr>priv_result := Some (Variable 3, Variable 0, Variable 0)\<rparr>)"
    by (simp add: finish_then_rangeCheck_def Sum_finish_def Sum_isConstant_def singleAdd_def
          toVar_def exists1_def w1 w2 Sum_rangeCheck_def bindM_def emit_def pallas_p_def)
  then show ?thesis
    using C2_finishForMulInput_same_value [of pallas_p 88 ?s 7 False "[]" "[]"] by simp
qed

subsection \<open>Division\<close>

lemma modInverse_zero:
  assumes "f \<noteq> 0" and "y mod f = 0"
  shows "modInverse y f = Inr None"
  using assms by (simp add: modInverse_def mod_bigint_def)

lemma modInverse_Some:
  assumes "modInverse y f = Inr (Some z)"
  shows "z * y mod f = 1 \<and> 0 \<le> z \<and> z < f"
proof -
  have f: "f \<noteq> 0" and nz: "y mod f \<noteq> 0"
    and fnd: "List.find (\<lambda>z. z * (y mod f) mod f = 1) (map int [0..<nat f]) = Some z"
    using assms by (auto simp: modInverse_def mod_bigint_def split: if_splits)
  from fnd have "z \<in> set (map int [0..<nat f])" and "z * (y mod f) mod f = 1"
    by (auto simp: find_Some_iff)
  then show ?thesis
    by (auto simp: mod_mult_right_eq)
qed

lemma modInverse_exists:
  assumes "0 < f" and "w * y mod f = 1"
  shows "\<exists>z. modInverse y f = Inr (Some z)"
proof -
  have nz: "y mod f \<noteq> 0"
  proof
    assume "y mod f = 0"
    then have "w * y mod f = 0"
      by (metis mod_mult_right_eq mult_zero_right mod_0)
    then show False
      using assms(2) by simp
  qed
  let ?z = "w mod f"
  have "?z * (y mod f) mod f = 1"
    using assms(2) by (simp add: mod_mult_eq)
  moreover have "?z \<in> set (map int [0..<nat f])"
  proof -
    have "0 \<le> ?z" "?z < f"
      using assms(1) by simp_all
    then have "nat ?z < nat f" "int (nat ?z) = ?z"
      by simp_all
    then show ?thesis
      by (metis atLeast0LessThan imageI lessThan_iff set_map set_upt)
  qed
  ultimately have "List.find (\<lambda>z. z * (y mod f) mod f = 1) (map int [0..<nat f]) \<noteq> None"
    by (auto simp: find_None_iff)
  then show ?thesis
    using assms(1) nz by (auto simp: modInverse_def mod_bigint_def)
qed

lemma isConstant_Field_op [simp]:
  "isConstant (Field_add p a b) = (isConstant a \<and> isConstant b)"
  "isConstant (Field_sub p a b) = (isConstant a \<and> isConstant b)"
  "isConstant (Field_mul p a b) = (isConstant a \<and> isConstant b)"
  by (simp_all add: Field_add_def Field_sub_def Field_mul_def Field_op_def)

lemma assertMulInternal_run:
  assumes "f \<noteq> 0"
  shows "\<exists>gs. assertMulInternal p l a b (Three x) f log = Inr ((), log @ gs)"
proof -
  obtain q0 q1 q2 g1 g2 where
    run: "multiplyNoRangeCheck p l a b f log
       = Inr ((exists1 p (take_bit (l2 l) (mul_remainder p l a b f)),
               exists1 p (take_bit l (drop_bit (l2 l) (mul_remainder p l a b f))),
               (exists1 p q0, exists1 p q1, exists1 p q2)),
              log @ [g1, g2])"
    using multiplyNoRangeCheck_run [OF assms] by blast
  obtain x0 x1 x2 where x: "x = (x0, x1, x2)"
    by (cases x)
  show ?thesis
    by (simp add: assertMulInternal_def x Field_assertEquals_def Let_def emit_def bindM_def run)
qed

lemma divide_variable_prefix:
  assumes "f \<noteq> 0" and "f < 2 ^ 259" and "\<not> (Field3_isConstant x \<and> Field3_isConstant y)"
    and "modInverse (Field3_toBigint p l y) f = Inr yInv"
  shows "\<exists>gs. divide_ff p l x y f True log = Inr (divide_witness p l x f yInv, log @ gs)"
proof -
  have nc: "(Field3_isConstant x \<and> Field3_isConstant y) = False"
    using assms(3) by simp
  obtain z0 z1 z2 where
    z: "(case yInv of None \<Rightarrow> (0, 0, 0) | Some i \<Rightarrow> split l ((Field3_toBigint p l x * i) mod f)) = (z0, z1, z2)"
    by (metis prod_cases3)
  have w: "(case yInv of None \<Rightarrow> returnM (0, 0, 0)
            | Some yInv \<Rightarrow> bindM (liftM (mod_bigint (Field3_toBigint p l x * yInv) f))
                  (\<lambda>m. returnM (split l m))) = returnM (z0, z1, z2)"
    using z assms(1) by (cases yInv) (simp_all add: mod_bigint_def fun_eq_iff)
  obtain gs where
    am: "assertMulInternal p l (exists1 p z0, exists1 p z1, exists1 p z2) y (Three x) f
           (log @ [MultiRangeCheck (exists1 p z0, exists1 p z1, exists1 p z2)])
         = Inr ((), (log @ [MultiRangeCheck (exists1 p z0, exists1 p z1, exists1 p z2)]) @ gs)"
    using assertMulInternal_run [OF assms(1)] by blast
  show ?thesis
    using assms(2)
    by (simp add: divide_ff_def nc assms(4) w push_bit_eq_mult divide_witness_def z weakBound_def
          Let_def bindM_def emit_def am)
qed

lemma divide_variable_guarded:
  assumes "f \<noteq> 0" and "f < 2 ^ 259" and "\<not> (Field3_isConstant x \<and> Field3_isConstant y)"
    and "modInverse (Field3_toBigint p l y) f = Inr yInv"
  shows "\<exists>gs. divide_ff p l x y f False log =
     (if \<not> Field3_isConstant y
      then Inr (divide_witness p l x f yInv, log @ gs @ zero_guard_rows p l y f)
      else if \<exists>g \<in> set (zero_guard_rows p l y f). violated p l g
      then Inl (AssertionError ''Bool.assertFalse()'')
      else Inr (divide_witness p l x f yInv, log @ gs))"
proof -
  obtain y0 y1 y2 where y: "y = (y0, y1, y2)"
    by (cases y)
  have nc: "(Field3_isConstant x \<and> Field3_isConstant (y0, y1, y2)) = False"
    using assms(3) y by simp
  have inv: "modInverse (Field3_toBigint p l (y0, y1, y2)) f = Inr yInv"
    using assms(4) y by simp
  obtain z0 z1 z2 where
    z: "(case yInv of None \<Rightarrow> (0, 0, 0) | Some i \<Rightarrow> split l ((Field3_toBigint p l x * i) mod f)) = (z0, z1, z2)"
    by (metis prod_cases3)
  have w: "(case yInv of None \<Rightarrow> returnM (0, 0, 0)
            | Some yInv \<Rightarrow> bindM (liftM (mod_bigint (Field3_toBigint p l x * yInv) f))
                  (\<lambda>m. returnM (split l m))) = returnM (z0, z1, z2)"
    using z assms(1) by (cases yInv) (simp_all add: mod_bigint_def fun_eq_iff)
  obtain gs where
    am: "assertMulInternal p l (exists1 p z0, exists1 p z1, exists1 p z2) (y0, y1, y2) (Three x) f
           (log @ [MultiRangeCheck (exists1 p z0, exists1 p z1, exists1 p z2)])
         = Inr ((), (log @ [MultiRangeCheck (exists1 p z0, exists1 p z1, exists1 p z2)]) @ gs)"
    using assertMulInternal_run [OF assms(1)] by blast
  obtain f0 f1 f2 where f: "split l f = (f0, f1, f2)"
    by (cases "split l f")
  define y01 where "y01 = Field_add p y0 (Field_mul p y1 (Field_from p (push_bit l 1)))"
  have c01: "isConstant y01 = (isConstant y0 \<and> isConstant y1)"
    by (simp add: y01_def)
  let ?gs = "MultiRangeCheck (exists1 p z0, exists1 p z1, exists1 p z2) # gs
       @ [MultiRangeCheck (weakBound p l (exists1 p z2) f, Field_from p 0, Field_from p 0)]"
  have wb: "\<not> isConstant (weakBound p l (exists1 p z2) f)"
    by (simp add: weakBound_def)
  have "divide_ff p l x (y0, y1, y2) f False log =
     (if \<not> Field3_isConstant (y0, y1, y2)
      then Inr (divide_witness p l x f yInv, log @ ?gs @ zero_guard_rows p l (y0, y1, y2) f)
      else if \<exists>g \<in> set (zero_guard_rows p l (y0, y1, y2) f). violated p l g
      then Inl (AssertionError ''Bool.assertFalse()'')
      else Inr (divide_witness p l x f yInv, log @ ?gs))"
    using assms(2) unfolding divide_ff_def nc inv if_False
    by (cases "isConstant y0"; cases "isConstant y1"; cases "isConstant y2")
       (auto simp: w divide_witness_def z assertM_def wb Let_def bindM_def emit_def am f
          y01_def [symmetric] c01
          zero_guard_rows_def Bool_assertFalse_def Bool_and_def Field_equals_def push_bit_eq_mult
          simp del: push_bit_of_1)
  then show ?thesis
    unfolding y by blast
qed

lemma divide_constant:
  assumes "f \<noteq> 0" and "f < 2 ^ 259" and "Field3_isConstant x \<and> Field3_isConstant y"
    and "modInverse (Field3_toBigint p l y) f = Inr yInv"
  shows "divide_ff p l x y f allowZeroOverZero log =
     (case yInv of
        None \<Rightarrow> Inl (AssertionError ''inverse exists'')
      | Some i \<Rightarrow> Inr (Field3_from p l ((Field3_toBigint p l x * i) mod f), log))"
  using assms by (cases yInv) (simp_all add: divide_ff_def push_bit_eq_mult mod_bigint_def)

lemma modInverse_total:
  assumes "f \<noteq> 0"
  shows "\<exists>yInv. modInverse y f = Inr yInv"
  using assms by (simp add: modInverse_def mod_bigint_def)

lemma toBigInt_Field_op:
  "toBigInt p (Field_add p a b) = (toBigInt p a + toBigInt p b) mod int p"
  "toBigInt p (Field_sub p a b) = (toBigInt p a - toBigInt p b) mod int p"
  "toBigInt p (Field_mul p a b) = (toBigInt p a * toBigInt p b) mod int p"
  by (simp_all add: Field_add_def Field_sub_def Field_mul_def Field_op_def)

lemma combine2_range:
  assumes "0 \<le> a" "a < 2 ^ l" "0 \<le> b" "b < 2 ^ l"
  shows "0 \<le> combine2 l (a, b) \<and> combine2 l (a, b) < 2 ^ l2 l"
proof -
  have "b + 1 \<le> 2 ^ l"
    using assms(4) by simp
  then have "(b + 1) * 2 ^ l \<le> (2::int) ^ l * 2 ^ l"
    by (intro mult_right_mono) simp_all
  then have "a + b * 2 ^ l < 2 ^ l * 2 ^ l"
    using assms(2) by (simp add: algebra_simps)
  moreover have "0 \<le> b * 2 ^ l"
    using assms(3) by simp
  ultimately show ?thesis
    using assms(1) by (simp add: push_bit_eq_mult l2_def mult_2 power_add)
qed

lemma guard_low_limbs:
  assumes "inRange p l y0" and "inRange p l y1" and "(2::int) ^ l2 l \<le> int p"
  shows "toBigInt p (Field_add p y0 (Field_mul p y1 (Field_from p (push_bit l 1))))
           = combine2 l (toBigInt p y0, toBigInt p y1)"
proof -
  let ?a = "toBigInt p y0" and ?b = "toBigInt p y1"
  have r: "0 \<le> combine2 l (?a, ?b) \<and> combine2 l (?a, ?b) < 2 ^ l2 l"
    using assms(1,2) by (intro combine2_range) (simp_all add: inRange_def)
  have "toBigInt p (Field_add p y0 (Field_mul p y1 (Field_from p (push_bit l 1))))
          = (?a + ?b * (push_bit l 1 mod int p) mod int p) mod int p"
    by (simp add: toBigInt_Field_op)
  also have "\<dots> = (?a + ?b * push_bit l 1) mod int p"
    by (simp add: mod_mult_right_eq mod_add_right_eq)
  also have "\<dots> = combine2 l (?a, ?b) mod int p"
    by (simp add: push_bit_eq_mult)
  also have "\<dots> = combine2 l (?a, ?b)"
    using r assms(3) by (intro mod_native_id [of _ "l2 l"]) simp_all
  finally show ?thesis .
qed

lemma limbs_unique:
  fixes a b c d :: int
  assumes "0 \<le> a" "a < m" "0 \<le> c" "c < m"
  shows "(a + m * b = c + m * d) = (a = c \<and> b = d)"
proof
  assume e: "a + m * b = c + m * d"
  have "(a + m * b) mod m = a" "(c + m * d) mod m = c"
    using assms by simp_all
  then have ac: "a = c"
    using e by simp
  have "0 < m"
    using assms(1,2) by simp
  then have "b = d"
    using e ac by simp
  then show "a = c \<and> b = d"
    using ac by simp
qed simp

lemma zero_guard_rows_meaning:
  assumes "rangeChecked p l y" and "0 \<le> f" and "f < 2 ^ l3 l" and "(2::int) ^ l2 l \<le> int p"
  shows "zero_guard_rows p l y f
     = [AssertFalse (VariableB (Field3_toBigint p l y = 0)),
        AssertFalse (VariableB (Field3_toBigint p l y = f))]"
proof -
  obtain y0 y1 y2 where y: "y = (y0, y1, y2)"
    by (cases y)
  let ?c = "combine2 l (toBigInt p y0, toBigInt p y1)"
  have rng: "inRange p l y0" "inRange p l y1" "inRange p l y2"
    using assms(1) y by simp_all
  have y01: "toBigInt p (Field_add p y0 (Field_mul p y1 (Field_from p (push_bit l 1)))) = ?c"
    using rng(1,2) assms(4) by (rule guard_low_limbs)
  have c: "0 \<le> ?c" "?c < 2 ^ l2 l"
    using rng(1,2) combine2_range [of "toBigInt p y0" l "toBigInt p y1"] by (simp_all add: inRange_def)
  have Y: "Field3_toBigint p l y = ?c + 2 ^ l2 l * toBigInt p y2"
    by (simp add: Field3_toBigint_def y push_bit_eq_mult)
  have pl: "(2::int) ^ l \<le> int p"
  proof -
    have "(2::int) ^ l \<le> 2 ^ l2 l"
      by (intro power_increasing) (simp_all add: l2_def)
    then show ?thesis
      using assms(4) by (rule order_trans)
  qed
  let ?f01 = "take_bit (l2 l) f" and ?f2 = "take_bit l (drop_bit (l2 l) f)"
  have f01: "?f01 mod int p = ?f01"
    using assms(4) by (rule take_bit_mod_native)
  have f2: "?f2 mod int p = ?f2"
    using pl by (rule take_bit_mod_native)
  have "combine l (split l f) = ?f01 + 2 ^ l2 l * ?f2"
    using combine2_split2 [of l f]
    by (simp add: split_limbs split2_def and_lMask push_bit_eq_mult)
  then have F: "f = ?f01 + 2 ^ l2 l * ?f2"
    using combine_split_id [OF assms(2,3)] by simp
  have z: "(?c = 0 \<and> toBigInt p y2 = 0) = (Field3_toBigint p l y = 0)"
    using limbs_unique [of ?c "2 ^ l2 l" 0 "toBigInt p y2" 0] c unfolding Y by simp
  have "(?c + 2 ^ l2 l * toBigInt p y2 = ?f01 + 2 ^ l2 l * ?f2) = (?c = ?f01 \<and> toBigInt p y2 = ?f2)"
    using c by (intro limbs_unique) simp_all
  then have e: "(?c = ?f01 \<and> toBigInt p y2 = ?f2) = (Field3_toBigint p l y = f)"
    using F Y by simp
  have "combine2 l (take_bit l f, take_bit l (drop_bit l f)) = ?f01"
    using combine2_split2 [of l f] by (simp add: split2_def and_lMask)
  then show ?thesis
    using z e
    by (simp add: zero_guard_rows_def y split_limbs y01 f01 f2 del: combine2.simps push_bit_of_1)
qed

lemma toBigint_divide_witness:
  assumes "0 \<le> m" and "m < 2 ^ l3 l" and "m = (Field3_toBigint p l x * i) mod f"
    and "(2::int) ^ l \<le> int p"
  shows "Field3_toBigint p l (divide_witness p l x f (Some i)) = m"
proof -
  have "combine l (split l m) = m"
    using assms(1,2) by (rule combine_split_id)
  then show ?thesis
    using assms(3)
    by (simp add: divide_witness_def Field3_toBigint_def split_limbs take_bit_mod_native [OF assms(4)])
qed

lemma zero_guard_rows_zero:
  assumes "toBigint3 p y = (0, 0, 0)"
  shows "\<exists>g \<in> set (zero_guard_rows p l y f). violated p l g"
proof -
  obtain y0 y1 y2 where y: "y = (y0, y1, y2)"
    by (cases y)
  show ?thesis
    using assms by (cases "split l f") (simp add: zero_guard_rows_def y toBigInt_Field_op)
qed

text \<open>
  C4 (amended). For every modulus \<open>f\<close> with \<open>0 < f < 2^259\<close>, every \<open>x\<close> and every
  divisor \<open>y\<close>: without \<open>allowZeroOverZero\<close>, and when \<open>y\<close> has a variable limb,
  \<open>divide(x, y, f)\<close> returns with a log that ends with the two rows of the zero guard, which
  compare, in the native field, \<open>y\<close>'s combined low and middle limb and its high limb with
  \<open>0\<close> and with the limb split of \<open>f\<close>. For a range-checked \<open>y\<close> (each limb in
  \<open>[0, 2^l)\<close>) the first row asserts that \<open>y = 0\<close> is false and the second that \<open>y = f\<close>
  is false; so a variable \<open>y\<close> that is \<open>0\<close> or \<open>f\<close> leaves a violated row in the log, and
  a constant \<open>y\<close> that is \<open>0\<close> or \<open>f\<close> fails at once. For a modulus \<open>1 < f\<close>, \<open>x\<close> in
  \<open>[0, f)\<close> and a range-checked \<open>y\<close> that is neither \<open>0\<close> nor \<open>f\<close> and has an inverse
  modulo \<open>f\<close>, \<open>divide(x, y, f)\<close> returns a \<open>z\<close> with \<open>z * y mod f = x\<close>, with or without
  \<open>allowZeroOverZero\<close>. The limb width and the native modulus are parameters here: three
  limbs have to hold 259 bits, and the combined low and middle limb has to fit in the native
  field (\<open>2^l2 \<le> p\<close>).
\<close>

theorem C4_divide_times_divisor:
  "0 < f \<and> f < 2 ^ 259 \<and> 259 \<le> l3 l \<and> 2 ^ l2 l \<le> p \<longrightarrow>
     (\<not> Field3_isConstant y \<longrightarrow>
        (\<exists>z pre. divide_ff p l x y f False log = Inr (z, pre @ zero_guard_rows p l y f)))
   \<and> (rangeChecked p l y \<longrightarrow>
        zero_guard_rows p l y f
          = [AssertFalse (VariableB (Field3_toBigint p l y = 0)),
             AssertFalse (VariableB (Field3_toBigint p l y = f))]
      \<and> (\<not> Field3_isConstant y \<and> (Field3_toBigint p l y = 0 \<or> Field3_toBigint p l y = f) \<longrightarrow>
            (\<exists>z log'. divide_ff p l x y f False log = Inr (z, log')
               \<and> (\<exists>g \<in> set log'. violated p l g)))
      \<and> (Field3_isConstant y \<and> (Field3_toBigint p l y = 0 \<or> Field3_toBigint p l y = f) \<longrightarrow>
            (\<exists>e. divide_ff p l x y f False log = Inl e))
      \<and> (1 < f \<and> 0 \<le> Field3_toBigint p l x \<and> Field3_toBigint p l x < f
            \<and> Field3_toBigint p l y \<noteq> 0 \<and> Field3_toBigint p l y \<noteq> f
            \<and> (\<exists>w. w * Field3_toBigint p l y mod f = 1) \<longrightarrow>
            (\<exists>z log'. divide_ff p l x y f allowZeroOverZero log = Inr (z, log')
               \<and> (Field3_toBigint p l z * Field3_toBigint p l y) mod f = Field3_toBigint p l x)))"
proof
  assume a: "0 < f \<and> f < 2 ^ 259 \<and> 259 \<le> l3 l \<and> 2 ^ l2 l \<le> p"
  let ?x = "Field3_toBigint p l x" and ?y = "Field3_toBigint p l y"
  have fne: "f \<noteq> 0" and f0: "0 \<le> f" and f259: "f < 2 ^ 259"
    using a by simp_all
  have "(2::int) ^ 259 \<le> 2 ^ l3 l"
    using a by (intro power_increasing) auto
  then have fl: "f < 2 ^ l3 l"
    using a by simp
  have pl2: "(2::int) ^ l2 l \<le> int p"
    using a by (intro int_power_le) simp
  have "(2::int) ^ l \<le> 2 ^ l2 l"
    by (intro power_increasing) (simp_all add: l2_def)
  then have pl: "(2::int) ^ l \<le> int p"
    using pl2 by (rule order_trans)
  obtain yInv where inv: "modInverse ?y f = Inr yInv"
    using modInverse_total [OF fne] by blast
  have variable: "\<exists>z pre. divide_ff p l x y f False log = Inr (z, pre @ zero_guard_rows p l y f)"
    if nc: "\<not> Field3_isConstant y"
  proof -
    obtain gs where
      "divide_ff p l x y f False log = Inr (divide_witness p l x f yInv, log @ gs @ zero_guard_rows p l y f)"
      using divide_variable_guarded [OF fne f259 _ inv, of x log] nc by auto
    then have "divide_ff p l x y f False log
        = Inr (divide_witness p l x f yInv, (log @ gs) @ zero_guard_rows p l y f)"
      by simp
    then show ?thesis
      by blast
  qed
  have checked: "zero_guard_rows p l y f
          = [AssertFalse (VariableB (?y = 0)), AssertFalse (VariableB (?y = f))]
      \<and> (\<not> Field3_isConstant y \<and> (?y = 0 \<or> ?y = f) \<longrightarrow>
            (\<exists>z log'. divide_ff p l x y f False log = Inr (z, log')
               \<and> (\<exists>g \<in> set log'. violated p l g)))
      \<and> (Field3_isConstant y \<and> (?y = 0 \<or> ?y = f) \<longrightarrow>
            (\<exists>e. divide_ff p l x y f False log = Inl e))
      \<and> (1 < f \<and> 0 \<le> ?x \<and> ?x < f \<and> ?y \<noteq> 0 \<and> ?y \<noteq> f \<and> (\<exists>w. w * ?y mod f = 1) \<longrightarrow>
            (\<exists>z log'. divide_ff p l x y f allowZeroOverZero log = Inr (z, log')
               \<and> (Field3_toBigint p l z * ?y) mod f = ?x))"
    if rc: "rangeChecked p l y"
  proof (intro conjI impI)
    show rows: "zero_guard_rows p l y f
          = [AssertFalse (VariableB (?y = 0)), AssertFalse (VariableB (?y = f))]"
      using rc f0 fl pl2 by (rule zero_guard_rows_meaning)
    {
      assume b: "\<not> Field3_isConstant y \<and> (?y = 0 \<or> ?y = f)"
      then obtain z pre where
        "divide_ff p l x y f False log = Inr (z, pre @ zero_guard_rows p l y f)"
        using variable by blast
      moreover have "\<exists>g \<in> set (pre @ zero_guard_rows p l y f). violated p l g"
        using b unfolding rows by auto
      ultimately show "\<exists>z log'. divide_ff p l x y f False log = Inr (z, log')
               \<and> (\<exists>g \<in> set log'. violated p l g)"
        by blast
    }
    {
      assume b: "Field3_isConstant y \<and> (?y = 0 \<or> ?y = f)"
      then have "?y mod f = 0"
        by auto
      then have none: "modInverse ?y f = Inr None"
        using fne by (intro modInverse_zero)
      have bad: "\<exists>g \<in> set (zero_guard_rows p l y f). violated p l g"
        using b unfolding rows by auto
      show "\<exists>e. divide_ff p l x y f False log = Inl e"
      proof (cases "Field3_isConstant x")
        case True
        then show ?thesis
          using divide_constant [OF fne f259 _ none, of x False log] b by simp
      next
        case False
        then show ?thesis
          using divide_variable_guarded [OF fne f259 _ none, of x log] b bad by auto
      qed
    }
    {
      assume b: "1 < f \<and> 0 \<le> ?x \<and> ?x < f \<and> ?y \<noteq> 0 \<and> ?y \<noteq> f \<and> (\<exists>w. w * ?y mod f = 1)"
      obtain i where inv: "modInverse ?y f = Inr (Some i)"
        using a b modInverse_exists [of f _ ?y] by blast
      then have i: "i * ?y mod f = 1"
        using modInverse_Some by blast
      define m where "m = (?x * i) mod f"
      have m: "0 \<le> m" "m < 2 ^ l3 l"
        using a fl unfolding m_def by (auto intro: less_trans [OF pos_mod_bound])
      have "m * ?y mod f = (?x * (i * ?y)) mod f"
        unfolding m_def by (simp add: mod_mult_left_eq mult.assoc)
      also have "\<dots> = (?x * (i * ?y mod f)) mod f"
        by (simp add: mod_mult_right_eq)
      also have "\<dots> = ?x"
        using b by (simp add: i)
      finally have prod: "m * ?y mod f = ?x" .
      have guard: "\<not> (\<exists>g \<in> set (zero_guard_rows p l y f). violated p l g)"
        using b unfolding rows by simp
      show "\<exists>z log'. divide_ff p l x y f allowZeroOverZero log = Inr (z, log')
               \<and> (Field3_toBigint p l z * ?y) mod f = ?x"
      proof (cases "Field3_isConstant x \<and> Field3_isConstant y")
        case True
        then have "divide_ff p l x y f allowZeroOverZero log = Inr (Field3_from p l m, log)"
          using divide_constant [OF fne f259 _ inv, of x allowZeroOverZero log] by (simp add: m_def)
        moreover have "Field3_toBigint p l (Field3_from p l m) = m"
          using m by (simp add: Field3_toBigint_from [OF pl] take_bit_int_eq_self)
        ultimately show ?thesis
          using prod by auto
      next
        case False
        have "Field3_toBigint p l (divide_witness p l x f (Some i)) = m"
          using m pl by (intro toBigint_divide_witness) (auto simp: m_def)
        then have z: "(Field3_toBigint p l (divide_witness p l x f (Some i)) * ?y) mod f = ?x"
          using prod by simp
        show ?thesis
        proof (cases allowZeroOverZero)
          case True
          obtain gs where
            "divide_ff p l x y f True log = Inr (divide_witness p l x f (Some i), log @ gs)"
            using divide_variable_prefix [OF fne f259 False inv, of log] by auto
          then show ?thesis
            using True z by auto
        next
          case azoz: False
          obtain gs where run: "divide_ff p l x y f False log =
             (if \<not> Field3_isConstant y
              then Inr (divide_witness p l x f (Some i), log @ gs @ zero_guard_rows p l y f)
              else if \<exists>g \<in> set (zero_guard_rows p l y f). violated p l g
              then Inl (AssertionError ''Bool.assertFalse()'')
              else Inr (divide_witness p l x f (Some i), log @ gs))"
            using divide_variable_guarded [OF fne f259 False inv, of log] by auto
          have "\<exists>log'. divide_ff p l x y f False log = Inr (divide_witness p l x f (Some i), log')"
            unfolding run using guard by (cases "Field3_isConstant y") simp_all
          then obtain log' where
            "divide_ff p l x y f False log = Inr (divide_witness p l x f (Some i), log')"
            by blast
          then show ?thesis
            using azoz z
            by (intro exI [of _ "divide_witness p l x f (Some i)"] exI [of _ log']) simp
        qed
      qed
    }
  qed
  show "(\<not> Field3_isConstant y \<longrightarrow>
        (\<exists>z pre. divide_ff p l x y f False log = Inr (z, pre @ zero_guard_rows p l y f)))
   \<and> (rangeChecked p l y \<longrightarrow>
        zero_guard_rows p l y f
          = [AssertFalse (VariableB (?y = 0)), AssertFalse (VariableB (?y = f))]
      \<and> (\<not> Field3_isConstant y \<and> (?y = 0 \<or> ?y = f) \<longrightarrow>
            (\<exists>z log'. divide_ff p l x y f False log = Inr (z, log')
               \<and> (\<exists>g \<in> set log'. violated p l g)))
      \<and> (Field3_isConstant y \<and> (?y = 0 \<or> ?y = f) \<longrightarrow>
            (\<exists>e. divide_ff p l x y f False log = Inl e))
      \<and> (1 < f \<and> 0 \<le> ?x \<and> ?x < f \<and> ?y \<noteq> 0 \<and> ?y \<noteq> f \<and> (\<exists>w. w * ?y mod f = 1) \<longrightarrow>
            (\<exists>z log'. divide_ff p l x y f allowZeroOverZero log = Inr (z, log')
               \<and> (Field3_toBigint p l z * ?y) mod f = ?x)))"
    using variable checked by blast
qed

theorem C4_divide_times_divisor_witness:
  "(0::int) < 2 ^ 256 - 2 ^ 32 - 977 \<and> (2 ^ 256 - 2 ^ 32 - 977 :: int) < 2 ^ 259 \<and> 259 \<le> l3 88
   \<and> 2 ^ l2 88 \<le> pallas_p
   \<and> \<not> Field3_isConstant (Variable 2, Variable 0, Variable 0)
   \<and> rangeChecked pallas_p 88 (Variable 2, Variable 0, Variable 0)
   \<and> (1::int) < 2 ^ 256 - 2 ^ 32 - 977
   \<and> Field3_toBigint pallas_p 88 (Variable 7, Variable 0, Variable 0) = 7
   \<and> Field3_toBigint pallas_p 88 (Variable 2, Variable 0, Variable 0) = 2
   \<and> (2 ^ 255 - 2 ^ 31 - 488) * (2::int) mod (2 ^ 256 - 2 ^ 32 - 977) = 1
   \<and> (\<exists>z pre. divide_ff pallas_p 88 (Variable 7, Variable 0, Variable 0) (Variable 2, Variable 0, Variable 0)
                   (2 ^ 256 - 2 ^ 32 - 977) False []
         = Inr (z, pre @ zero_guard_rows pallas_p 88 (Variable 2, Variable 0, Variable 0)
                           (2 ^ 256 - 2 ^ 32 - 977)))
   \<and> zero_guard_rows pallas_p 88 (Variable 2, Variable 0, Variable 0) (2 ^ 256 - 2 ^ 32 - 977)
         = [AssertFalse (VariableB False), AssertFalse (VariableB False)]
   \<and> (\<exists>z log'. divide_ff pallas_p 88 (Variable 7, Variable 0, Variable 0) (Variable 2, Variable 0, Variable 0)
                   (2 ^ 256 - 2 ^ 32 - 977) False [] = Inr (z, log')
         \<and> (Field3_toBigint pallas_p 88 z * 2) mod (2 ^ 256 - 2 ^ 32 - 977) = 7)
   \<and> (0::int) < 13 \<and> (13::int) < 2 ^ 259
   \<and> \<not> Field3_isConstant (Variable 13, Variable 0, Variable 0)
   \<and> rangeChecked pallas_p 88 (Variable 13, Variable 0, Variable 0)
   \<and> Field3_toBigint pallas_p 88 (Variable 13, Variable 0, Variable 0) = 13
   \<and> zero_guard_rows pallas_p 88 (Variable 13, Variable 0, Variable 0) 13
         = [AssertFalse (VariableB False), AssertFalse (VariableB True)]
   \<and> (\<exists>z log'. divide_ff pallas_p 88 (Variable 7, Variable 0, Variable 0) (Variable 13, Variable 0, Variable 0)
                   13 False [] = Inr (z, log')
         \<and> (\<exists>g \<in> set log'. violated pallas_p 88 g))
   \<and> Field3_isConstant (Constant 13, Constant 0, Constant 0)
   \<and> rangeChecked pallas_p 88 (Constant 13, Constant 0, Constant 0)
   \<and> Field3_toBigint pallas_p 88 (Constant 13, Constant 0, Constant 0) = 13
   \<and> (\<exists>e. divide_ff pallas_p 88 (Variable 7, Variable 0, Variable 0) (Constant 13, Constant 0, Constant 0)
               13 False [] = Inl e)"
proof -
  let ?f = "2 ^ 256 - 2 ^ 32 - 977 :: int"
  let ?x = "(Variable 7, Variable 0, Variable 0)"
  let ?y = "(Variable 2, Variable 0, Variable 0)"
  let ?v = "(Variable 13, Variable 0, Variable 0)"
  let ?c = "(Constant 13, Constant 0, Constant 0)"
  have x: "Field3_toBigint pallas_p 88 ?x = 7" and y: "Field3_toBigint pallas_p 88 ?y = 2"
    and v: "Field3_toBigint pallas_p 88 ?v = 13" and c: "Field3_toBigint pallas_p 88 ?c = 13"
    by (simp_all add: Field3_toBigint_def pallas_p_def)
  have r: "rangeChecked pallas_p 88 ?y" "rangeChecked pallas_p 88 ?v" "rangeChecked pallas_p 88 ?c"
    by (simp_all add: inRange_def pallas_p_def)
  have w: "(2 ^ 255 - 2 ^ 31 - 488) * (2::int) mod ?f = 1"
    by simp
  then have ex: "\<exists>w. w * Field3_toBigint pallas_p 88 ?y mod ?f = 1"
    unfolding y by (rule exI)
  have l: "259 \<le> l3 88" "2 ^ l2 88 \<le> pallas_p"
    by (simp_all add: l3_def l2_def pallas_p_def)
  have f: "(0::int) < ?f" "?f < 2 ^ 259" "(1::int) < ?f"
    by simp_all
  have g: "(0::int) < 13" "(13::int) < 2 ^ 259"
    by simp_all
  note A = C4_divide_times_divisor [where p = pallas_p and f = ?f and l = 88 and x = ?x and y = ?y
        and allowZeroOverZero = False and log = "[]"]
  note B = C4_divide_times_divisor [where p = pallas_p and f = 13 and l = 88 and x = ?x and y = ?v
        and allowZeroOverZero = False and log = "[]"]
  note C = C4_divide_times_divisor [where p = pallas_p and f = 13 and l = 88 and x = ?x and y = ?c
        and allowZeroOverZero = False and log = "[]"]
  have A1: "\<exists>z pre. divide_ff pallas_p 88 ?x ?y ?f False []
         = Inr (z, pre @ zero_guard_rows pallas_p 88 ?y ?f)"
    using A f l by simp
  have A2: "zero_guard_rows pallas_p 88 ?y ?f = [AssertFalse (VariableB False), AssertFalse (VariableB False)]"
    using A f l r(1) unfolding y by simp
  have A3: "\<exists>z log'. divide_ff pallas_p 88 ?x ?y ?f False [] = Inr (z, log')
         \<and> (Field3_toBigint pallas_p 88 z * 2) mod ?f = 7"
    using A f l r(1) ex unfolding x y by simp
  have B1: "zero_guard_rows pallas_p 88 ?v 13 = [AssertFalse (VariableB False), AssertFalse (VariableB True)]"
    using B g l r(2) unfolding v by simp
  have B2: "\<exists>z log'. divide_ff pallas_p 88 ?x ?v 13 False [] = Inr (z, log')
         \<and> (\<exists>g \<in> set log'. violated pallas_p 88 g)"
    using B g l r(2) unfolding v by simp
  have C1: "\<exists>e. divide_ff pallas_p 88 ?x ?c 13 False [] = Inl e"
    using C g l r(3) unfolding c by simp
  show ?thesis
    using A1 A2 A3 B1 B2 C1 x y v c r w l f g by (intro conjI) simp_all
qed

text \<open>
  As stated, C4 fails at the modulus \<open>f = 1\<close>, where every \<open>y\<close> is invertible
  (\<open>0 * y mod 1 = 1 mod 1\<close>): \<open>divide(0, 2, 1)\<close> on constants fails with "inverse exists",
  with or without \<open>allowZeroOverZero\<close>. It also fails for a divisor whose limbs are not
  range-checked: the limbs \<open>(p - 2^88, 1, 0)\<close> represent \<open>p\<close>, which is neither \<open>0\<close> nor
  \<open>13\<close> and has the inverse \<open>8\<close> modulo \<open>13\<close>, but their combined low and middle limb is
  \<open>0\<close> in the native field, so the zero guard takes this divisor for \<open>0\<close> and, the divisor being
  constant, fails at once.
\<close>

theorem C4_degenerate_modulus_counterexample:
  "(0::int) < 1 \<and> (1::int) < 2 ^ 259
   \<and> Field3_toBigint pallas_p 88 (Constant 0, Constant 0, Constant 0) = 0
   \<and> Field3_toBigint pallas_p 88 (Constant 2, Constant 0, Constant 0) = 2
   \<and> (0 * 2) mod 1 = (1::int) mod 1
   \<and> divide_ff pallas_p 88 (Constant 0, Constant 0, Constant 0) (Constant 2, Constant 0, Constant 0)
        1 False [] = Inl (AssertionError ''inverse exists'')
   \<and> divide_ff pallas_p 88 (Constant 0, Constant 0, Constant 0) (Constant 2, Constant 0, Constant 0)
        1 True [] = Inl (AssertionError ''inverse exists'')
   \<and> (0::int) < 13 \<and> (13::int) < 2 ^ 259
   \<and> Field3_toBigint pallas_p 88 (Variable 7, Variable 0, Variable 0) = 7
   \<and> Field3_toBigint pallas_p 88 (Constant (int pallas_p - 2 ^ 88), Constant 1, Constant 0)
        = int pallas_p
   \<and> int pallas_p \<noteq> 0 \<and> int pallas_p \<noteq> 13
   \<and> 8 * int pallas_p mod 13 = 1
   \<and> divide_ff pallas_p 88 (Variable 7, Variable 0, Variable 0)
        (Constant (int pallas_p - 2 ^ 88), Constant 1, Constant 0) 13 False []
        = Inl (AssertionError ''Bool.assertFalse()'')"
proof -
  let ?x = "(Variable 7, Variable 0, Variable 0)"
  let ?y = "(Constant (int pallas_p - 2 ^ 88), Constant 1, Constant 0)"
  have one: "divide_ff pallas_p 88 (Constant 0, Constant 0, Constant 0) (Constant 2, Constant 0, Constant 0)
        1 az [] = Inl (AssertionError ''inverse exists'')" for az
    by (simp add: divide_ff_def modInverse_def mod_bigint_def Field3_toBigint_def push_bit_eq_mult)
  have vals: "Field3_toBigint pallas_p 88 (Constant 0, Constant 0, Constant 0) = 0"
    "Field3_toBigint pallas_p 88 (Constant 2, Constant 0, Constant 0) = 2"
    "Field3_toBigint pallas_p 88 ?x = 7"
    "Field3_toBigint pallas_p 88 ?y = int pallas_p"
    "int pallas_p \<noteq> 0" "int pallas_p \<noteq> 13" "8 * int pallas_p mod 13 = 1"
    by (simp_all add: Field3_toBigint_def pallas_p_def push_bit_eq_mult)
  obtain yInv where inv: "modInverse (Field3_toBigint pallas_p 88 ?y) 13 = Inr yInv"
    using modInverse_total [of 13] by auto
  have bad: "\<exists>g \<in> set (zero_guard_rows pallas_p 88 ?y 13). violated pallas_p 88 g"
    by (simp add: zero_guard_rows_def split_limbs toBigInt_Field_op pallas_p_def
          take_bit_eq_mod drop_bit_eq_div push_bit_eq_mult l2_def)
  have "divide_ff pallas_p 88 ?x ?y 13 False [] = Inl (AssertionError ''Bool.assertFalse()'')"
    using divide_variable_guarded [where f = 13 and x = ?x and y = ?y and p = pallas_p and l = 88
        and yInv = yInv and log = "[]"] inv bad
    by auto
  then show ?thesis
    using one vals by simp
qed

text \<open>
  C3 (amended). For every modulus \<open>f\<close> with \<open>0 < f < 2^259\<close>, every \<open>x\<close> and a divisor
  \<open>y\<close> whose limbs are all zero: outside the constant case, \<open>divide\<close> with
  \<open>allowZeroOverZero\<close> returns the filler of three zero limbs; in the constant case it
  fails at once with "inverse exists", with or without \<open>allowZeroOverZero\<close>. Without
  \<open>allowZeroOverZero\<close>, a \<open>y\<close> with a variable limb gives a result together with a log
  that holds a violated row (the failure is deferred to the proof), and a constant \<open>y\<close> with
  a variable \<open>x\<close> fails at once.
\<close>

theorem C3_divide_by_zero:
  "0 < f \<and> f < 2 ^ 259 \<and> toBigint3 p y = (0, 0, 0) \<longrightarrow>
     (\<not> (Field3_isConstant x \<and> Field3_isConstant y) \<longrightarrow>
        (\<exists>log'. divide_ff p l x y f True log = Inr ((Variable 0, Variable 0, Variable 0), log')))
   \<and> (Field3_isConstant x \<and> Field3_isConstant y \<longrightarrow>
        divide_ff p l x y f allowZeroOverZero log = Inl (AssertionError ''inverse exists''))
   \<and> (\<not> Field3_isConstant y \<longrightarrow>
        (\<exists>z log'. divide_ff p l x y f False log = Inr (z, log') \<and> (\<exists>g \<in> set log'. violated p l g)))
   \<and> (Field3_isConstant y \<and> \<not> Field3_isConstant x \<longrightarrow>
        (\<exists>e. divide_ff p l x y f False log = Inl e))"
proof (intro impI conjI)
  assume a: "0 < f \<and> f < 2 ^ 259 \<and> toBigint3 p y = (0, 0, 0)"
  then have "Field3_toBigint p l y = 0"
    by (simp add: Field3_toBigint_def)
  then have inv: "modInverse (Field3_toBigint p l y) f = Inr None"
    using a by (simp add: modInverse_zero)
  have w: "divide_witness p l x f None = (Variable 0, Variable 0, Variable 0)"
    by (simp add: divide_witness_def exists1_def)
  have bad: "\<exists>g \<in> set (zero_guard_rows p l y f). violated p l g"
    using a by (simp add: zero_guard_rows_zero)
  {
    assume "\<not> (Field3_isConstant x \<and> Field3_isConstant y)"
    then show "\<exists>log'. divide_ff p l x y f True log = Inr ((Variable 0, Variable 0, Variable 0), log')"
      using divide_variable_prefix [where f = f and x = x and y = y and p = p and l = l and yInv = None and log = log] a inv w by auto
  }
  {
    assume "Field3_isConstant x \<and> Field3_isConstant y"
    then show "divide_ff p l x y f allowZeroOverZero log = Inl (AssertionError ''inverse exists'')"
      using divide_constant [where f = f and x = x and y = y and p = p and l = l and yInv = None
          and allowZeroOverZero = allowZeroOverZero and log = log] a inv by simp
  }
  {
    assume nc: "\<not> Field3_isConstant y"
    then obtain gs where
      "divide_ff p l x y f False log = Inr (divide_witness p l x f None, log @ gs @ zero_guard_rows p l y f)"
      using divide_variable_guarded [where f = f and x = x and y = y and p = p and l = l and yInv = None and log = log] a inv by auto
    then show "\<exists>z log'. divide_ff p l x y f False log = Inr (z, log') \<and> (\<exists>g \<in> set log'. violated p l g)"
      using bad w by auto
  }
  {
    assume "Field3_isConstant y \<and> \<not> Field3_isConstant x"
    then show "\<exists>e. divide_ff p l x y f False log = Inl e"
      using divide_variable_guarded [where f = f and x = x and y = y and p = p and l = l and yInv = None and log = log] a inv bad by auto
  }
qed

theorem C3_divide_by_zero_witness:
  "(0::int) < 2 ^ 256 - 2 ^ 32 - 977 \<and> (2 ^ 256 - 2 ^ 32 - 977 :: int) < 2 ^ 259
   \<and> toBigint3 pallas_p (Variable 0, Variable 0, Variable 0) = (0, 0, 0)
   \<and> (\<exists>log'. divide_ff pallas_p 88 (Variable 5, Variable 0, Variable 0) (Variable 0, Variable 0, Variable 0)
                (2 ^ 256 - 2 ^ 32 - 977) True [] = Inr ((Variable 0, Variable 0, Variable 0), log'))
   \<and> (\<exists>z log'. divide_ff pallas_p 88 (Variable 5, Variable 0, Variable 0) (Variable 0, Variable 0, Variable 0)
                (2 ^ 256 - 2 ^ 32 - 977) False [] = Inr (z, log') \<and> (\<exists>g \<in> set log'. violated pallas_p 88 g))
   \<and> toBigint3 pallas_p (Constant 0, Constant 0, Constant 0) = (0, 0, 0)
   \<and> divide_ff pallas_p 88 (Constant 5, Constant 0, Constant 0) (Constant 0, Constant 0, Constant 0)
                (2 ^ 256 - 2 ^ 32 - 977) False [] = Inl (AssertionError ''inverse exists'')
   \<and> (\<exists>e. divide_ff pallas_p 88 (Variable 5, Variable 0, Variable 0) (Constant 0, Constant 0, Constant 0)
                (2 ^ 256 - 2 ^ 32 - 977) False [] = Inl e)"
  using C3_divide_by_zero [where p = pallas_p and f = "2 ^ 256 - 2 ^ 32 - 977" and l = 88
      and x = "(Variable 5, Variable 0, Variable 0)" and y = "(Variable 0, Variable 0, Variable 0)"
      and log = "[]"]
    C3_divide_by_zero [where p = pallas_p and f = "2 ^ 256 - 2 ^ 32 - 977" and l = 88
      and x = "(Constant 5, Constant 0, Constant 0)" and y = "(Constant 0, Constant 0, Constant 0)"
      and allowZeroOverZero = False and log = "[]"]
    C3_divide_by_zero [where p = pallas_p and f = "2 ^ 256 - 2 ^ 32 - 977" and l = 88
      and x = "(Variable 5, Variable 0, Variable 0)" and y = "(Constant 0, Constant 0, Constant 0)"
      and log = "[]"]
  by simp

text \<open>
  As stated, C3 fails in constant mode: with \<open>allowZeroOverZero\<close> set, constant \<open>0 / 0\<close>
  does not produce a result but fails with "inverse exists".
\<close>

theorem C3_constant_zero_over_zero_counterexample:
  "divide_ff pallas_p 88 (Constant 0, Constant 0, Constant 0) (Constant 0, Constant 0, Constant 0)
     (2 ^ 256 - 2 ^ 32 - 977) True [] = Inl (AssertionError ''inverse exists'')"
  by (simp add: divide_ff_def modInverse_def mod_bigint_def Field3_toBigint_def push_bit_eq_mult)

subsection \<open>The less-than assertion\<close>

lemma combine_nonneg:
  assumes "inRange p l r0" and "inRange p l r1" and "inRange p l r2"
  shows "0 \<le> combine l (toBigInt p r0, toBigInt p r1, toBigInt p r2)"
  using assms by (simp add: inRange_def push_bit_eq_mult)








end
